theory Spec2Isabelle
  imports Main "HOL-Library.Char_ord" "HOL-Library.List_Lexorder"
begin

section \<open>Errors raised by the Python code\<close>

text \<open>
  Every exception the modelled functions can raise is a value of \<open>py_error\<close>; a function
  that can raise returns \<open>py_error + 'a\<close>, with \<open>Inl\<close> for the raised exception.
  \<open>CivisAPIError\<close> is the error class of the remote API (civis.base), \<open>JobSubmissionError\<close>
  is declared in parallel.py and wraps the API error it was raised from, \<open>CivisJobFailure\<close>
  is the exception of a run that failed, \<open>CancelledError\<close> is the one of concurrent.futures,
  \<open>TransportableException\<close> is joblib's wrapper, here around the exception of the future.
  The three transport errors are the members of \<open>retry_exc\<close> in \<open>_robust_result_download\<close>.
\<close>

datatype py_error =
    ValueError
  | KeyError
  | TypeError
  | IndexError
  | UnboundLocalError
  | CivisAPIError string
  | JobSubmissionError py_error
  | CivisJobFailure string
  | CancelledError
  | TransportableException "py_error option"
  | HTTPError
  | ConnectionError
  | ConnectTimeout
  | OtherError string

section \<open>parallel.py: \<open>_CivisBackend.effective_n_jobs\<close>\<close>

definition ALL_JOBS :: int where
  "ALL_JOBS = 50"

text \<open>
  \<^verbatim>\<open>
  def effective_n_jobs(self, n_jobs):
      if n_jobs == -1:
          n_jobs = _ALL_JOBS
      if n_jobs <= 0:
          raise ValueError(...)
      return n_jobs
  \<close>
\<close>

definition effective_n_jobs :: "int \<Rightarrow> py_error + int" where
  "effective_n_jobs n_jobs =
     (let n = (if n_jobs = - 1 then ALL_JOBS else n_jobs)
      in if n \<le> 0 then Inl ValueError else Inr n)"

section \<open>futures.py: \<open>_create_docker_command\<close>\<close>

text \<open>
  \<^verbatim>\<open>
  def _create_docker_command(*args, **kwargs):
      return " ".join([str(x) for x in args] +
                      ["--{} {}".format(k, v)
                       for k, v in sorted(kwargs.items())])
  \<close>
  \<open>str.join\<close>: the separator goes between consecutive elements only.
\<close>

fun join_str :: "string \<Rightarrow> string list \<Rightarrow> string" where
  "join_str sep [] = []"
| "join_str sep [x] = x"
| "join_str sep (x # y # ys) = x @ sep @ join_str sep (y # ys)"

text \<open>
  The keyword dictionary is an association list in insertion order, its keys distinct.
  \<open>sorted(kwargs.items())\<close> compares the \<open>(key, value)\<close> tuples; the keys of a dictionary
  differ pairwise, so each comparison is decided by the keys (strings, compared
  lexicographically by character code) and no value is ever compared.  Python's sort and
  \<open>sort_key\<close> are both stable.
\<close>

definition sorted_items :: "(string \<times> 'v) list \<Rightarrow> (string \<times> 'v) list" where
  "sorted_items kwargs = sort_key fst kwargs"

text \<open>\<^verbatim>\<open>"--{} {}".format(k, v)\<close>; \<open>str\<close> renders a value as Python's \<open>str\<close> does.\<close>

definition kw_fragment :: "('v \<Rightarrow> string) \<Rightarrow> string \<times> 'v \<Rightarrow> string" where
  "kw_fragment str kv = ''--'' @ fst kv @ '' '' @ str (snd kv)"

definition create_docker_command ::
    "('v \<Rightarrow> string) \<Rightarrow> 'v list \<Rightarrow> (string \<times> 'v) list \<Rightarrow> string" where
  "create_docker_command str args kwargs =
     join_str '' '' (map str args @ map (kw_fragment str) (sorted_items kwargs))"

section \<open>futures.py: \<open>CivisFuture._check_message\<close>\<close>

text \<open>
  A notification message is whatever JSON value the channel delivers.  Numbers with a
  fractional part are left out of the model.
\<close>

datatype json =
    JNull
  | JBool bool
  | JInt int
  | JStr string
  | JList "json list"
  | JDict "(string \<times> json) list"

text \<open>
  \<open>v[k]\<close> for a string key \<open>k\<close>: a dictionary without the key raises \<open>KeyError\<close>; a list, a
  string, a number, a boolean or \<open>None\<close> raises \<open>TypeError\<close>.
\<close>

fun subscript :: "json \<Rightarrow> string \<Rightarrow> py_error + json" where
  "subscript (JDict kvs) k = (case map_of kvs k of None \<Rightarrow> Inl KeyError | Some v \<Rightarrow> Inr v)"
| "subscript _ k = Inl TypeError"

text \<open>Sequencing of two steps of which the first may raise.\<close>

fun and_then :: "py_error + 'a \<Rightarrow> ('a \<Rightarrow> py_error + 'b) \<Rightarrow> py_error + 'b" where
  "and_then (Inl e) f = Inl e"
| "and_then (Inr x) f = f x"

text \<open>\<open>message[a][b]\<close>\<close>

definition subscript2 :: "json \<Rightarrow> string \<Rightarrow> string \<Rightarrow> py_error + json" where
  "subscript2 m a b = and_then (subscript m a) (\<lambda>x. subscript x b)"

text \<open>\<open>poller_args[i]\<close> on a tuple or list: out of range raises \<open>IndexError\<close>.\<close>

definition item :: "'a list \<Rightarrow> nat \<Rightarrow> py_error + 'a" where
  "item xs i = (if i < length xs then Inr (xs ! i) else Inl IndexError)"

text \<open>
  \<open>v == i\<close> for a JSON value \<open>v\<close> and an integer id \<open>i\<close>: an integer equals itself, \<open>True\<close> and
  \<open>False\<close> equal 1 and 0, every other value differs from every integer.
\<close>

fun py_eq_int :: "json \<Rightarrow> int \<Rightarrow> bool" where
  "py_eq_int (JInt n) i = (n = i)"
| "py_eq_int (JBool b) i = ((if b then 1 else 0) = i)"
| "py_eq_int _ i = False"

text \<open>
  \<open>v in DONE\<close>, where \<open>DONE\<close> (civis.base) is a list of state names: membership by \<open>==\<close>, and
  only a string equals a string.
\<close>

fun py_in_strs :: "json \<Rightarrow> string list \<Rightarrow> bool" where
  "py_in_strs (JStr s) names = (s \<in> set names)"
| "py_in_strs _ names = False"

text \<open>
  \<^verbatim>\<open>
  def _check_message(self, message):
      try:
          # poller_args can be (job_id,) or (job_id, run_id)
          if len(self.poller_args) == 1:
              match = (message['object']['id'] == self.poller_args[0] and
                       message['run']['state'] in DONE)
          else:
              match = (message['object']['id'] == self.poller_args[0] and
                       message['run']['id'] == self.poller_args[1] and
                       message['run']['state'] in DONE)
      except KeyError:
          return False
      return match
  \<close>
  The body of the \<open>try\<close>, with Python's evaluation order (left operand of \<open>==\<close> first) and the
  short circuit of \<open>and\<close>.  \<open>DONE\<close> is a parameter: civis.base is not among the sources.
\<close>

definition check_message_try :: "string list \<Rightarrow> int list \<Rightarrow> json \<Rightarrow> py_error + bool" where
  "check_message_try DONE poller_args message =
     (if length poller_args = 1 then
        and_then (subscript2 message ''object'' ''id'') (\<lambda>oid.
        and_then (item poller_args 0) (\<lambda>job.
          if \<not> py_eq_int oid job then Inr False
          else and_then (subscript2 message ''run'' ''state'') (\<lambda>st.
               Inr (py_in_strs st DONE))))
      else
        and_then (subscript2 message ''object'' ''id'') (\<lambda>oid.
        and_then (item poller_args 0) (\<lambda>job.
          if \<not> py_eq_int oid job then Inr False
          else and_then (subscript2 message ''run'' ''id'') (\<lambda>rid.
               and_then (item poller_args 1) (\<lambda>run.
                 if \<not> py_eq_int rid run then Inr False
                 else and_then (subscript2 message ''run'' ''state'') (\<lambda>st.
                      Inr (py_in_strs st DONE)))))))"

text \<open>\<open>except KeyError: return False\<close>; any other exception leaves the method.\<close>

definition check_message :: "string list \<Rightarrow> int list \<Rightarrow> json \<Rightarrow> py_error + bool" where
  "check_message DONE poller_args message =
     (case check_message_try DONE poller_args message of
        Inl KeyError \<Rightarrow> Inr False
      | Inl e \<Rightarrow> Inl e
      | Inr match \<Rightarrow> Inr match)"

text \<open>
  \<open>JobCompleteListener.message\<close>: the completion callback runs when the match function
  returns a true value; an exception of the match function leaves the listener before the
  callback.
  \<^verbatim>\<open>
  def message(self, pubnub, message):
      if self.match_function(message.message):
          self.callback_function()
  \<close>
\<close>

definition listener_calls_back :: "string list \<Rightarrow> int list \<Rightarrow> json \<Rightarrow> bool" where
  "listener_calls_back DONE poller_args message =
     (check_message DONE poller_args message = Inr True)"

text \<open>
  What the claim about \<open>_check_message\<close> speaks of, in the specification's words: the
  entry \<open>message[a][b]\<close> of a message of shape \<open>{object: {id}, run: {id, state}}\<close>, when
  present.
\<close>

definition entry :: "json \<Rightarrow> string \<Rightarrow> string \<Rightarrow> json option" where
  "entry m a b =
     (case m of
        JDict kvs \<Rightarrow>
          (case map_of kvs a of
             Some (JDict kvs') \<Rightarrow> map_of kvs' b
           | _ \<Rightarrow> None)
      | _ \<Rightarrow> None)"

text \<open>
  The message matches the tracker: its object id equals the job id, its run state is in
  \<open>DONE\<close> and, when the poller arguments are not the job id alone, its run id equals the
  second poller argument.
\<close>

definition message_matches :: "string list \<Rightarrow> int list \<Rightarrow> json \<Rightarrow> bool" where
  "message_matches DONE poller_args m =
     (case (entry m ''object'' ''id'', entry m ''run'' ''state'') of
        (Some oid, Some st) \<Rightarrow>
          poller_args \<noteq> [] \<and> py_eq_int oid (poller_args ! 0) \<and> py_in_strs st DONE \<and>
          (if length poller_args = 1 then True
           else (case entry m ''run'' ''id'' of
                   Some rid \<Rightarrow> py_eq_int rid (poller_args ! 1)
                 | None \<Rightarrow> False))
      | _ \<Rightarrow> False)"

text \<open>
  A message is dictionary-shaped when it is a dictionary whose \<open>object\<close> and \<open>run\<close> entries,
  where present, are dictionaries.
\<close>

fun is_dict :: "json \<Rightarrow> bool" where
  "is_dict (JDict kvs) = True"
| "is_dict _ = False"

definition dict_shaped :: "json \<Rightarrow> bool" where
  "dict_shaped m =
     (case m of
        JDict kvs \<Rightarrow>
          (case map_of kvs ''object'' of None \<Rightarrow> True | Some v \<Rightarrow> is_dict v) \<and>
          (case map_of kvs ''run'' of None \<Rightarrow> True | Some v \<Rightarrow> is_dict v)
      | _ \<Rightarrow> False)"

section \<open>parallel.py: the submission loop of \<open>_CivisBackend.apply_async\<close>\<close>

text \<open>
  \<open>_CivisBackend.__init__\<close> refuses a negative \<open>max_submit_retries\<close>.
  \<^verbatim>\<open>
  if max_submit_retries < 0:
      raise ValueError(...)
  \<close>
\<close>

definition check_max_submit_retries :: "int \<Rightarrow> py_error + int" where
  "check_max_submit_retries max_submit_retries =
     (if max_submit_retries < 0 then Inl ValueError else Inr max_submit_retries)"

text \<open>\<open>except CivisAPIError as e\<close>: the one class of submission errors that is retried.\<close>

fun is_CivisAPIError :: "py_error \<Rightarrow> bool" where
  "is_CivisAPIError (CivisAPIError msg) = True"
| "is_CivisAPIError _ = False"

text \<open>
  What one run of a retry loop did: the value or the exception it ended with, the number
  of calls of the retried operation, and the arguments of \<open>time.sleep\<close> in order.  For the
  submission loop the value is the future and the sleeps are whole seconds.
\<close>

record ('a, 't) retried =
  outcome :: "py_error + 'a"
  attempts :: nat
  slept :: "'t list"

type_synonym 'f submission = "('f, nat) retried"

text \<open>
  \<^verbatim>\<open>
  for n_retries in range(1 + self.max_submit_retries):
      try:
          if self.using_template:
              args = {'JOBLIB_FUNC_FILE_ID': func_file_id}
              future = self.executor.submit(**args)
          else:
              future = self.executor.submit(fn=cmd)
          # Stop retrying if submission was successful.
          break
      except CivisAPIError as e:
          # If we've retried the maximum number of times already,
          # then raise an exception.
          retries_left = self.max_submit_retries - n_retries - 1
          if retries_left < 1:
              raise JobSubmissionError(e)
          # Sleep with exponentially increasing intervals in case
          # the issue persists for a while.
          time.sleep(2 ** n_retries)
  \<close>
  \<open>submit n\<close> is what the call of \<open>executor.submit\<close> in iteration \<open>n\<close> does: it returns a
  future or raises.  The recursion runs over the values of \<open>range(1 + max_submit_retries)\<close>
  still to come.  A range used up without \<open>break\<close> leaves \<open>future\<close> unbound, and the first use
  of it after the loop raises \<open>UnboundLocalError\<close>.
\<close>

fun submit_loop ::
    "(nat \<Rightarrow> py_error + 'f) \<Rightarrow> int \<Rightarrow> nat list \<Rightarrow> nat \<Rightarrow> nat list \<Rightarrow> 'f submission" where
  "submit_loop submit max_submit_retries [] calls sleeps =
     \<lparr>outcome = Inl UnboundLocalError, attempts = calls, slept = sleeps\<rparr>"
| "submit_loop submit max_submit_retries (n_retries # rest) calls sleeps =
     (case submit n_retries of
        Inr future \<Rightarrow> \<lparr>outcome = Inr future, attempts = Suc calls, slept = sleeps\<rparr>
      | Inl e \<Rightarrow>
          if is_CivisAPIError e then
            (let retries_left = max_submit_retries - int n_retries - 1
             in if retries_left < 1
                then \<lparr>outcome = Inl (JobSubmissionError e), attempts = Suc calls,
                      slept = sleeps\<rparr>
                else submit_loop submit max_submit_retries rest (Suc calls)
                       (sleeps @ [2 ^ n_retries]))
          else \<lparr>outcome = Inl e, attempts = Suc calls, slept = sleeps\<rparr>)"

text \<open>\<open>range(1 + max_submit_retries)\<close>, empty when the bound is not positive.\<close>

definition submit_range :: "int \<Rightarrow> nat list" where
  "submit_range max_submit_retries = [0 ..< nat (1 + max_submit_retries)]"

definition apply_async_submit :: "(nat \<Rightarrow> py_error + 'f) \<Rightarrow> int \<Rightarrow> 'f submission" where
  "apply_async_submit submit max_submit_retries =
     submit_loop submit max_submit_retries (submit_range max_submit_retries) 0 []"

text \<open>The attempts the loop can reach: one, or \<open>max_submit_retries\<close> when that is more.\<close>

definition max_attempts :: "int \<Rightarrow> nat" where
  "max_attempts max_submit_retries = nat (max 1 max_submit_retries)"

text \<open>\<open>2 ** 0, 2 ** 1, ...\<close>: the back-off after each of the first \<open>j\<close> failed attempts.\<close>

definition backoff :: "nat \<Rightarrow> nat list" where
  "backoff j = map (\<lambda>i. 2 ^ i) [0 ..< j]"

text \<open>The call of \<open>executor.submit\<close> in iteration \<open>i\<close> raises a \<open>CivisAPIError\<close>.\<close>

definition transient_failure :: "(nat \<Rightarrow> py_error + 'f) \<Rightarrow> nat \<Rightarrow> bool" where
  "transient_failure submit i =
     (case submit i of Inl e \<Rightarrow> is_CivisAPIError e | Inr future \<Rightarrow> False)"

section \<open>parallel.py: \<open>_robust_result_download\<close>\<close>

text \<open>\<open>retry_exc = (requests.HTTPError, requests.ConnectionError, requests.ConnectTimeout)\<close>\<close>

fun is_retry_exc :: "py_error \<Rightarrow> bool" where
  "is_retry_exc HTTPError = True"
| "is_retry_exc ConnectionError = True"
| "is_retry_exc ConnectTimeout = True"
| "is_retry_exc _ = False"

text \<open>
  \<^verbatim>\<open>
  def _robust_result_download(output_file_id, client, n_retries=5, delay=0.0):
      retry_exc = (...)
      n_failed = 0
      while True:
          buffer = BytesIO()
          try:
              civis.io.civis_to_file(output_file_id, buffer, client=client)
          except retry_exc as exc:
              buffer.close()
              if n_failed < n_retries:
                  n_failed += 1
                  time.sleep(delay)
              else:
                  raise
          else:
              buffer.seek(0)
              return joblib.load(buffer)
  \<close>
  \<open>civis_to_file i\<close> is what the call of \<open>civis.io.civis_to_file\<close> does that follows \<open>i\<close>
  failed ones: it fills the buffer or raises.  \<open>load\<close> is \<open>joblib.load\<close>, which may raise as
  well.  Every call before the current one failed, so \<open>n_failed\<close> also numbers the calls.
  The loop ends because each round that does not leave it increments \<open>n_failed\<close>, which
  \<open>n_retries\<close> bounds.
\<close>

function robust_result_download_loop ::
    "(nat \<Rightarrow> py_error + 'b) \<Rightarrow> ('b \<Rightarrow> py_error + 'a) \<Rightarrow> int \<Rightarrow> 't \<Rightarrow> nat \<Rightarrow> 't list
      \<Rightarrow> ('a, 't) retried" where
  "robust_result_download_loop civis_to_file load n_retries delay n_failed sleeps =
     (case civis_to_file n_failed of
        Inr buffer \<Rightarrow>
          \<lparr>outcome = load buffer, attempts = Suc n_failed, slept = sleeps\<rparr>
      | Inl exc \<Rightarrow>
          if is_retry_exc exc then
            (if int n_failed < n_retries
             then robust_result_download_loop civis_to_file load n_retries delay
                    (Suc n_failed) (sleeps @ [delay])
             else \<lparr>outcome = Inl exc, attempts = Suc n_failed, slept = sleeps\<rparr>)
          else \<lparr>outcome = Inl exc, attempts = Suc n_failed, slept = sleeps\<rparr>)"
  by pat_completeness auto
termination
  by (relation "measure (\<lambda>(civis_to_file, load, n_retries, delay, n_failed, sleeps).
        nat (n_retries - int n_failed))") auto

definition robust_result_download ::
    "(nat \<Rightarrow> py_error + 'b) \<Rightarrow> ('b \<Rightarrow> py_error + 'a) \<Rightarrow> int \<Rightarrow> 't \<Rightarrow> ('a, 't) retried" where
  "robust_result_download civis_to_file load n_retries delay =
     robust_result_download_loop civis_to_file load n_retries delay 0 []"

text \<open>The download call after \<open>i\<close> failed ones raises one of the retried exceptions.\<close>

definition transport_failure :: "(nat \<Rightarrow> py_error + 'b) \<Rightarrow> nat \<Rightarrow> bool" where
  "transport_failure civis_to_file i =
     (case civis_to_file i of Inl exc \<Rightarrow> is_retry_exc exc | Inr buffer \<Rightarrow> False)"

text \<open>What the download ends with when call \<open>j\<close> is the last one.\<close>

definition download_result ::
    "(nat \<Rightarrow> py_error + 'b) \<Rightarrow> ('b \<Rightarrow> py_error + 'a) \<Rightarrow> nat \<Rightarrow> py_error + 'a" where
  "download_result civis_to_file load j =
     (case civis_to_file j of Inl exc \<Rightarrow> Inl exc | Inr buffer \<Rightarrow> load buffer)"

section \<open>futures.py: the tracker \<open>ContainerFuture\<close>\<close>

text \<open>
  The state of a run as the remote service reports it, and a response of the service: the
  \<open>id\<close> and \<open>state\<close> attributes are the ones the code reads.
\<close>

datatype run_state = Queued | Running | Succeeded | Failed | Cancelled

record response =
  rid :: int
  rstate :: run_state

text \<open>
  The remote service is a collaborator.  Its answers are parameters: each call gets the
  requests made so far and either returns or raises.  \<open>channels_list\<close> is the request
  behind \<open>_pubnub_config\<close>, whose answer configures the subscription.
\<close>

datatype request = PostRuns int | PostCancel int | ChannelsList

record api =
  post_runs :: "request list \<Rightarrow> int \<Rightarrow> py_error + response"
  post_cancel :: "request list \<Rightarrow> int \<Rightarrow> py_error + response"
  channels_list :: "request list \<Rightarrow> py_error option"

text \<open>
  The attributes of a \<open>ContainerFuture\<close>.  \<open>poller_args\<close> is built as
  \<open>[int(job_id), int(run_id)]\<close> and only its second element is ever assigned, so the two
  elements are the fields \<open>job_id\<close> and \<open>run_id\<close>, named after the properties that read them.
  \<open>stored_result\<close>, \<open>last_result\<close> and \<open>stored_exception\<close> are \<open>_result\<close>, \<open>_last_result\<close> and
  \<open>_exception\<close>; \<open>polling\<close> says that a polling thread runs; \<open>has_pubnub\<close> is
  \<open>hasattr(self, '_pubnub')\<close> and \<open>subscribed\<close> says that the subscription is live;
  \<open>waiters\<close> is \<open>_waiters\<close>.  Three counters record effects: the waiters that got
  \<open>add_cancelled\<close>, the calls of \<open>_condition.notify_all\<close> and of \<open>_invoke_callbacks\<close>.
  The lock, the log and the time stamp \<open>_last_polled\<close> are left out.
\<close>

record tracker =
  job_id :: int
  run_id :: int
  max_n_retries :: int
  stored_result :: "response option"
  last_result :: "response option"
  stored_exception :: "py_error option"
  polling :: bool
  has_pubnub :: bool
  subscribed :: bool
  waiters :: "nat list"
  cancel_notified :: "nat list"
  wakeups :: nat
  callbacks_run :: nat

definition poller_args :: "'a tracker_scheme \<Rightarrow> int list" where
  "poller_args t = [job_id t, run_id t]"

text \<open>
  \<open>ContainerFuture.__init__\<close>: no result yet, the retry budget as given, subscribed when
  the notification channel is available.  The executor creates its trackers with
  \<open>poll_on_creation=False\<close>; no polling thread runs yet.
\<close>

definition ContainerFuture :: "int \<Rightarrow> int \<Rightarrow> int \<Rightarrow> bool \<Rightarrow> tracker" where
  "ContainerFuture job run n pubnub =
     \<lparr>job_id = job, run_id = run, max_n_retries = n, stored_result = None,
      last_result = None, stored_exception = None, polling = False, has_pubnub = pubnub,
      subscribed = pubnub, waiters = [], cancel_notified = [], wakeups = 0,
      callbacks_run = 0\<rparr>"

text \<open>
  Modelled from the spec: the status methods \<open>done()\<close>, \<open>cancelled()\<close>, \<open>succeeded()\<close>,
  \<open>failed()\<close> and \<open>exception()\<close> of the base classes (civis.base and civis.polling are not
  among the sources).  They report the current terminal or non-terminal status, which is
  the state of the stored result: \<open>cancel\<close> below stores the answer of the cancel request
  in \<open>_result\<close> and then asks \<open>cancelled()\<close>.  The terminal states are SUCCEEDED, FAILED and
  CANCELLED.  The poll that \<open>done()\<close> may force on a tracker that has never polled is not
  part of the model.  \<open>exception()\<close> is the one of concurrent.futures: on a cancelled future
  it raises \<open>CancelledError\<close>, on a finished one it returns the stored exception.
\<close>

definition status :: "'a tracker_scheme \<Rightarrow> run_state option" where
  "status t = map_option rstate (stored_result t)"

definition future_done :: "'a tracker_scheme \<Rightarrow> bool" where
  "future_done t = (status t \<in> {Some Succeeded, Some Failed, Some Cancelled})"

definition cancelled :: "'a tracker_scheme \<Rightarrow> bool" where
  "cancelled t = (status t = Some Cancelled)"


definition failed :: "'a tracker_scheme \<Rightarrow> bool" where
  "failed t = (status t = Some Failed)"

definition future_exception :: "'a tracker_scheme \<Rightarrow> py_error + py_error option" where
  "future_exception t = (if cancelled t then Inl CancelledError else Inr (stored_exception t))"

text \<open>
  \<^verbatim>\<open>
  def cleanup(self):
      with self._condition:
          super().cleanup()
          if hasattr(self, '_pubnub'):
              self._pubnub.unsubscribe_all()
  \<close>
  \<open>super().cleanup()\<close> stops the polling thread.
\<close>

definition cleanup :: "'a tracker_scheme \<Rightarrow> 'a tracker_scheme" where
  "cleanup t =
     (let t1 = t\<lparr>polling := False\<rparr>
      in if has_pubnub t1 then t1\<lparr>subscribed := False\<rparr> else t1)"

text \<open>
  Modelled from the spec: \<open>_set_api_exception\<close> of the base class (civis.base, not among
  the sources), the terminal failure path.  It records the outcome: the response of the
  failed run, or a FAILED response when none is given, and the exception; it notifies all
  waiters, invokes the completion callbacks and releases the polling and notification
  resources.
\<close>

definition base_set_api_exception ::
    "py_error \<Rightarrow> response option \<Rightarrow> 'a tracker_scheme \<Rightarrow> 'a tracker_scheme" where
  "base_set_api_exception exc result t =
     (let r = (case result of
                 None \<Rightarrow> \<lparr>rid = run_id t, rstate = Failed\<rparr>
               | Some r \<Rightarrow> r)
      in cleanup (t\<lparr>stored_result := Some r, last_result := Some r,
                     stored_exception := Some exc, wakeups := Suc (wakeups t),
                     callbacks_run := Suc (callbacks_run t)\<rparr>))"

text \<open>
  \<^verbatim>\<open>
  def _set_api_exception(self, exc, result=None):
      # Catch attempts to set an exception. If there's retries
      # remaining, retry the run instead of erroring.
      with self._condition:
          if self._max_n_retries > 0:
              # Start a new run of the script and update
              # the run ID used by the poller.
              self.cleanup()
              self._last_result = self.client.jobs.post_runs(self.job_id)
              orig_run_id = self.run_id
              self.poller_args[1] = run_id = self._last_result.id
              self._max_n_retries -= 1
              self._last_polled = time.time()
              self._polling_thread = _ResultPollingThread(
                  self._check_result, (), self.polling_interval)
              self._polling_thread.start()
              if hasattr(self, '_pubnub'):
                  # Subscribe to the new run's notifications endpoint
                  self._pubnub = self._subscribe(*self._pubnub_config())
          else:
              super()._set_api_exception(exc=exc, result=result)
  \<close>
  The function takes and returns the requests made so far and the tracker; the first
  component of its value is the exception that leaves the method, if one does.  A request
  that raises is recorded as made, and the tracker stays as the statements before it left
  it.
\<close>

definition set_api_exception ::
    "api \<Rightarrow> py_error \<Rightarrow> response option \<Rightarrow> request list \<times> 'a tracker_scheme
      \<Rightarrow> py_error option \<times> request list \<times> 'a tracker_scheme" where
  "set_api_exception remote exc result s =
     (case s of (reqs, t) \<Rightarrow>
        if max_n_retries t > 0 then
          (let t1 = cleanup t;
               reqs1 = reqs @ [PostRuns (job_id t1)]
           in case post_runs remote reqs (job_id t1) of
                Inl e \<Rightarrow> (Some e, reqs1, t1)
              | Inr r \<Rightarrow>
                  (let t2 = t1\<lparr>last_result := Some r\<rparr>;
                       t3 = t2\<lparr>run_id := rid r\<rparr>;
                       t4 = t3\<lparr>max_n_retries := max_n_retries t3 - 1\<rparr>;
                       t5 = t4\<lparr>polling := True\<rparr>
                   in if has_pubnub t5 then
                        (case channels_list remote reqs1 of
                           Some e \<Rightarrow> (Some e, reqs1 @ [ChannelsList], t5)
                         | None \<Rightarrow> (None, reqs1 @ [ChannelsList], t5\<lparr>subscribed := True\<rparr>))
                      else (None, reqs1, t5)))
        else (None, reqs, base_set_api_exception exc result t))"

text \<open>
  A run that keeps failing: the failure path is entered once for each exception of the
  list, in order, until an exception leaves it.
\<close>

fun fail_repeatedly ::
    "api \<Rightarrow> py_error list \<Rightarrow> request list \<times> 'a tracker_scheme
      \<Rightarrow> py_error option \<times> request list \<times> 'a tracker_scheme" where
  "fail_repeatedly remote [] s = (None, s)"
| "fail_repeatedly remote (exc # excs) s =
     (case set_api_exception remote exc None s of
        (Some e, s') \<Rightarrow> (Some e, s')
      | (None, s') \<Rightarrow> fail_repeatedly remote excs s')"

text \<open>The remote service answers every request for a new run and for the channels.\<close>

definition answers_runs :: "api \<Rightarrow> bool" where
  "answers_runs remote =
     ((\<forall>reqs job. \<exists>r. post_runs remote reqs job = Inr r) \<and>
      (\<forall>reqs. channels_list remote reqs = None))"

text \<open>The requests for a new run among the requests made.\<close>

definition runs_started :: "request list \<Rightarrow> int list" where
  "runs_started reqs = concat (map (\<lambda>q. case q of PostRuns job \<Rightarrow> [job] | _ \<Rightarrow> []) reqs)"

text \<open>
  \<^verbatim>\<open>
  def cancel(self):
      with self._condition:
          if self.cancelled():
              return True
          elif not self.done():
              # Cancel the job and store the result of the cancellation in
              # the "finished result" attribute, `_result`.
              self._result = self.client.scripts.post_cancel(self.job_id)
              for waiter in self._waiters:
                  waiter.add_cancelled(self)
              self._condition.notify_all()
              self.cleanup()
              self._invoke_callbacks()
              return self.cancelled()
          return False
  \<close>
  The first component of the value is what the call returns or raises.
\<close>

definition cancel ::
    "api \<Rightarrow> request list \<times> 'a tracker_scheme
      \<Rightarrow> (py_error + bool) \<times> request list \<times> 'a tracker_scheme" where
  "cancel remote s =
     (case s of (reqs, t) \<Rightarrow>
        if cancelled t then (Inr True, reqs, t)
        else if \<not> future_done t then
          (case post_cancel remote reqs (job_id t) of
             Inl e \<Rightarrow> (Inl e, reqs @ [PostCancel (job_id t)], t)
           | Inr r \<Rightarrow>
               (let t1 = t\<lparr>stored_result := Some r\<rparr>;
                    t2 = t1\<lparr>cancel_notified := cancel_notified t1 @ waiters t1\<rparr>;
                    t3 = t2\<lparr>wakeups := Suc (wakeups t2)\<rparr>;
                    t4 = cleanup t3;
                    t5 = t4\<lparr>callbacks_run := Suc (callbacks_run t4)\<rparr>
                in (Inr (cancelled t5), reqs @ [PostCancel (job_id t)], t5)))
        else (Inr False, reqs, t))"

text \<open>
  \<^verbatim>\<open>
  def cancel_all(self):
      for f in self._futures:
          f.cancel()
  \<close>
  The registry \<open>_futures\<close> is the list of the trackers the executor made, each a tracker of
  its own.  An exception of a \<open>cancel\<close> ends the loop.
\<close>

fun cancel_all ::
    "api \<Rightarrow> request list \<times> 'a tracker_scheme list
      \<Rightarrow> py_error option \<times> request list \<times> 'a tracker_scheme list" where
  "cancel_all remote (reqs, []) = (None, reqs, [])"
| "cancel_all remote (reqs, f # fs) =
     (case cancel remote (reqs, f) of
        (Inl e, reqs', f') \<Rightarrow> (Some e, reqs', f' # fs)
      | (Inr b, reqs', f') \<Rightarrow>
          (case cancel_all remote (reqs', fs) of
             (raised, reqs'', fs') \<Rightarrow> (raised, reqs'', f' # fs')))"

text \<open>The cancel requests among the requests made.\<close>

definition cancels_requested :: "request list \<Rightarrow> int list" where
  "cancels_requested reqs =
     concat (map (\<lambda>q. case q of PostCancel job \<Rightarrow> [job] | _ \<Rightarrow> []) reqs)"

text \<open>The remote service answers every cancel request.\<close>

definition answers_cancel :: "api \<Rightarrow> bool" where
  "answers_cancel remote = (\<forall>reqs job. \<exists>r. post_cancel remote reqs job = Inr r)"

section \<open>parallel.py: \<open>_CivisBackendResult\<close>\<close>

text \<open>
  What the attribute \<open>remote_func_output\<close> and the slot \<open>result\<close> can hold: \<open>None\<close>, an
  exception object, or any other value.  \<open>joblib.load\<close> returns such an object as well: the
  worker stores the exception of a function that failed as the output of the run.
\<close>

datatype 'v pyobj = PyNone | PyException py_error | PyValue 'v

text \<open>
  \<open>_CivisBackendResult.__init__\<close> attaches two attributes to the future:
  \<^verbatim>\<open>
  self._future.remote_func_output = None  # `get` reads results from here
  self._future.result_fetched = False  # Did we get the result?
  \<close>
\<close>

record 'v joblib_future = tracker +
  remote_func_output :: "'v pyobj"
  result_fetched :: bool

record 'v backend_result =
  future :: "'v joblib_future"
  result :: "'v pyobj"

definition CivisBackendResult :: "tracker \<Rightarrow> 'v backend_result" where
  "CivisBackendResult t =
     \<lparr>future = tracker.extend t
                 (joblib_future.fields PyNone False),
      result = PyNone\<rparr>"

text \<open>
  What one run of the completion hook did: the exception that left it, if any, the
  future as it left it, the arguments of the calls of the continuation in order, and the
  download it made, if it made one.
\<close>

record 'v fetched =
  hook_raised :: "py_error option"
  fetched_future :: "'v joblib_future"
  continuation_calls :: "'v pyobj list"
  download :: "('v pyobj, nat) retried option"

text \<open>
  The \<open>else\<close> branch of the \<open>try\<close> statement of the hook:
  \<^verbatim>\<open>
  else:
      fut.result_fetched = True
      if not fut.cancelled() and not fut.exception():
          # The next job will start when this callback is called.
          # Only run it if the job was a success.
          joblib_callback(fut.remote_func_output)
  \<close>
  \<open>joblib_callback\<close> is a parameter: it returns, or raises an exception, which leaves the
  hook.
\<close>

definition fetch_result_else ::
    "('v pyobj \<Rightarrow> py_error option) \<Rightarrow> 'v joblib_future \<Rightarrow> ('v pyobj, nat) retried option
      \<Rightarrow> 'v fetched" where
  "fetch_result_else joblib_callback fut d =
     (let fut1 = fut\<lparr>result_fetched := True\<rparr>
      in if cancelled fut1
         then \<lparr>hook_raised = None, fetched_future = fut1, continuation_calls = [], download = d\<rparr>
         else (case future_exception fut1 of
                 Inl e \<Rightarrow>
                   \<lparr>hook_raised = Some e, fetched_future = fut1, continuation_calls = [],
                    download = d\<rparr>
               | Inr (Some exc) \<Rightarrow>
                   \<lparr>hook_raised = None, fetched_future = fut1, continuation_calls = [],
                    download = d\<rparr>
               | Inr None \<Rightarrow>
                   \<lparr>hook_raised = joblib_callback (remote_func_output fut1),
                    fetched_future = fut1,
                    continuation_calls = [remote_func_output fut1], download = d\<rparr>))"

text \<open>
  The \<open>except\<close> branch: \<open>BaseException\<close> catches every exception.
  \<^verbatim>\<open>
  except BaseException as exc:
      fut.remote_func_output = exc
  \<close>
\<close>

definition fetch_result_except ::
    "py_error \<Rightarrow> 'v joblib_future \<Rightarrow> ('v pyobj, nat) retried option \<Rightarrow> 'v fetched" where
  "fetch_result_except exc fut d =
     \<lparr>hook_raised = None, fetched_future = fut\<lparr>remote_func_output := PyException exc\<rparr>,
      continuation_calls = [], download = d\<rparr>"

text \<open>
  \<^verbatim>\<open>
  def _fetch_result(fut):
      (logging)
      try:
          # Find the output file ID from the run outputs.
          run_outputs = client.scripts.list_containers_runs_outputs(
              fut.job_id, fut.run_id)
          if run_outputs:
              output_file_id = run_outputs[0]['object_id']
              res = _robust_result_download(output_file_id, client,
                                            n_retries=5, delay=1.0)
              fut.remote_func_output = res
      except BaseException as exc:
          fut.remote_func_output = exc
      else:
          (above)
  \<close>
  \<open>list_outputs job run\<close> is the request for the outputs of the run; it returns the object
  ids of the outputs or raises.  \<open>civis_to_file file i\<close> is the download call for the file
  after \<open>i\<close> failed ones.  The delay of one second is a whole number of seconds.
\<close>

definition fetch_result ::
    "(int \<Rightarrow> int \<Rightarrow> py_error + int list) \<Rightarrow> (int \<Rightarrow> nat \<Rightarrow> py_error + 'b)
      \<Rightarrow> ('b \<Rightarrow> py_error + 'v pyobj) \<Rightarrow> ('v pyobj \<Rightarrow> py_error option)
      \<Rightarrow> 'v joblib_future \<Rightarrow> 'v fetched" where
  "fetch_result list_outputs civis_to_file load joblib_callback fut =
     (case list_outputs (job_id fut) (run_id fut) of
        Inl exc \<Rightarrow> fetch_result_except exc fut None
      | Inr run_outputs \<Rightarrow>
          (case run_outputs of
             [] \<Rightarrow> fetch_result_else joblib_callback fut None
           | output_file_id # others \<Rightarrow>
               (let d = robust_result_download (civis_to_file output_file_id) load 5 1
                in case outcome d of
                     Inl exc \<Rightarrow> fetch_result_except exc fut (Some d)
                   | Inr res \<Rightarrow>
                       fetch_result_else joblib_callback
                         (fut\<lparr>remote_func_output := res\<rparr>) (Some d))))"

text \<open>
  \<open>wait([self._future])\<close> returns when the future is done.  For a future that is done it
  returns at once; for another one the future it returns with is what the parameter
  \<open>settle\<close> makes of it.
\<close>

definition wait_for ::
    "('v joblib_future \<Rightarrow> 'v joblib_future) \<Rightarrow> 'v joblib_future \<Rightarrow> 'v joblib_future" where
  "wait_for settle fut = (if future_done fut then fut else settle fut)"

text \<open>
  \<^verbatim>\<open>
  def get(self):
      if self.result is None:
          # Wait for the script to complete.
          wait([self._future])
          self.result = self._future.remote_func_output

      if self._future.exception() or not self._future.result_fetched:
          if self.result is not None:
              raise self.result
          else:
              exc = self._future.exception()
              raise TransportableException(repr(exc), type(exc))

      return self.result
  \<close>
  The first component of the value is what the call returns or raises.  Raising an object
  that is no exception is a \<open>TypeError\<close>.
\<close>

definition get ::
    "('v joblib_future \<Rightarrow> 'v joblib_future) \<Rightarrow> 'v backend_result
      \<Rightarrow> (py_error + 'v pyobj) \<times> 'v backend_result" where
  "get settle r =
     (let r1 = (if result r = PyNone
                then (let fut = wait_for settle (future r)
                      in r\<lparr>future := fut, result := remote_func_output fut\<rparr>)
                else r)
      in case future_exception (future r1) of
           Inl e \<Rightarrow> (Inl e, r1)
         | Inr exc \<Rightarrow>
             if exc \<noteq> None \<or> \<not> result_fetched (future r1) then
               (case result r1 of
                  PyNone \<Rightarrow>
                    (case future_exception (future r1) of
                       Inl e \<Rightarrow> (Inl e, r1)
                     | Inr exc' \<Rightarrow> (Inl (TransportableException exc'), r1))
                | PyException e \<Rightarrow> (Inl e, r1)
                | PyValue v \<Rightarrow> (Inl TypeError, r1))
             else (Inr (result r1), r1))"


text \<open>The first six download calls for the file all raise one of the retried exceptions.\<close>

definition download_fails :: "(int \<Rightarrow> nat \<Rightarrow> py_error + 'b) \<Rightarrow> int \<Rightarrow> bool" where
  "download_fails civis_to_file file = (\<forall>i<6. transport_failure (civis_to_file file) i)"


section \<open>Theorems\<close>

text \<open>
  C8. For every requested concurrency value \<open>n\<close>, \<open>effective_n_jobs\<close> returns the fixed
  platform default 50 when \<open>n\<close> is the sentinel \<open>-1\<close>, returns \<open>n\<close> unchanged when \<open>n\<close> is
  positive, and raises \<open>ValueError\<close> for every other value (\<open>n = 0\<close> or \<open>n < -1\<close>).
\<close>

theorem effective_n_jobs_spec:
  "effective_n_jobs (- 1) = Inr 50
   \<and> (0 < n \<longrightarrow> effective_n_jobs n = Inr n)
   \<and> (n = 0 \<or> n < - 1 \<longrightarrow> effective_n_jobs n = Inl ValueError)"
  by (auto simp: effective_n_jobs_def ALL_JOBS_def Let_def)

theorem effective_n_jobs_spec_witness:
  "effective_n_jobs 4 = Inr 4 \<and> effective_n_jobs 0 = Inl ValueError
   \<and> effective_n_jobs (- 7) = Inl ValueError"
  using effective_n_jobs_spec [of 4] effective_n_jobs_spec [of 0]
    effective_n_jobs_spec [of "- 7"]
  by simp

subsection \<open>The docker command\<close>

lemma sorted_items_set: "set (sorted_items kwargs) = set kwargs"
  by (simp add: sorted_items_def)

lemma sorted_items_ascending:
  assumes "distinct (map fst kwargs)"
  shows "sorted_wrt (<) (map fst (sorted_items kwargs))"
proof -
  from assms have "distinct kwargs" and "inj_on fst (set kwargs)"
    by (simp_all add: distinct_map)
  then have "distinct (map fst (sorted_items kwargs))"
    by (simp add: distinct_map sorted_items_def)
  moreover have "sorted (map fst (sorted_items kwargs))"
    by (simp add: sorted_items_def)
  ultimately show ?thesis
    by (simp add: strict_sorted_iff)
qed

lemma ascending_items_unique:
  fixes xs ys :: "('k::linorder \<times> 'v) list"
  assumes "sorted_wrt (<) (map fst xs)" and "sorted_wrt (<) (map fst ys)"
    and "set xs = set ys"
  shows "xs = ys"
proof -
  from assms(1) have dx: "distinct (map fst xs)" and sx: "sorted (map fst xs)"
    by (simp_all add: strict_sorted_iff)
  from assms(2) have dy: "distinct (map fst ys)" and sy: "sorted (map fst ys)"
    by (simp_all add: strict_sorted_iff)
  from dx have "inj_on fst (set xs)"
    by (simp add: distinct_map)
  with assms(3) have "inj_on fst (set xs \<union> set ys)"
    by simp
  then show ?thesis
    using sx dx sy dy assms(3) by (rule map_sorted_distinct_set_unique)
qed

text \<open>
  C9. For every sequence of positional arguments and every keyword dictionary,
  \<open>_create_docker_command\<close> returns \<open>str(x)\<close> for each positional argument in the given order,
  followed by the fragment \<open>--k v\<close> for each keyword pair in ascending order of the keys, all
  joined by single spaces: the keyword pairs used are exactly the dictionary's items, their
  keys strictly ascending, and any listing of the items with ascending keys gives the same
  string.  In particular two insertion orders of the same dictionary give the same output.
\<close>

theorem create_docker_command_spec:
  assumes "distinct (map fst kwargs)"
  shows "set (sorted_items kwargs) = set kwargs
    \<and> sorted_wrt (<) (map fst (sorted_items kwargs))
    \<and> create_docker_command str args kwargs =
        join_str '' '' (map str args @
          map (\<lambda>(k, v). ''--'' @ k @ '' '' @ str v) (sorted_items kwargs))
    \<and> (\<forall>items. set items = set kwargs \<and> sorted_wrt (<) (map fst items) \<longrightarrow>
          create_docker_command str args kwargs =
            join_str '' '' (map str args @ map (\<lambda>(k, v). ''--'' @ k @ '' '' @ str v) items))
    \<and> (\<forall>kwargs'. distinct (map fst kwargs') \<and> set kwargs' = set kwargs \<longrightarrow>
          create_docker_command str args kwargs' = create_docker_command str args kwargs)"
proof -
  have frag: "kw_fragment str = (\<lambda>(k, v). ''--'' @ k @ '' '' @ str v)"
    by (auto simp: kw_fragment_def fun_eq_iff)
  have asc: "sorted_wrt (<) (map fst (sorted_items kwargs))"
    using assms by (rule sorted_items_ascending)
  have out: "create_docker_command str args kwargs =
        join_str '' '' (map str args @
          map (\<lambda>(k, v). ''--'' @ k @ '' '' @ str v) (sorted_items kwargs))"
    by (simp add: create_docker_command_def frag)
  have uniq: "items = sorted_items kwargs"
    if "set items = set kwargs" and "sorted_wrt (<) (map fst items)" for items
    using that asc by (intro ascending_items_unique) (simp_all add: sorted_items_set)
  have det: "create_docker_command str args kwargs' = create_docker_command str args kwargs"
    if "distinct (map fst kwargs')" and "set kwargs' = set kwargs" for kwargs'
  proof -
    have "sorted_wrt (<) (map fst (sorted_items kwargs'))"
      using that(1) by (rule sorted_items_ascending)
    moreover have "set (sorted_items kwargs') = set (sorted_items kwargs)"
      using that(2) by (simp add: sorted_items_set)
    ultimately have "sorted_items kwargs' = sorted_items kwargs"
      using asc by (intro ascending_items_unique)
    then show ?thesis
      by (simp add: create_docker_command_def)
  qed
  show ?thesis
    using asc out uniq det by (auto simp: sorted_items_set)
qed

theorem create_docker_command_spec_witness:
  "create_docker_command (\<lambda>s. s) [''./myprogram'', ''5'', ''6'']
       [(''wobble'', ''8''), (''wibble'', ''7'')]
     = ''./myprogram 5 6 --wibble 7 --wobble 8''
   \<and> create_docker_command (\<lambda>s. s) [''./myprogram'', ''5'', ''6'']
       [(''wobble'', ''8''), (''wibble'', ''7'')]
     = create_docker_command (\<lambda>s. s) [''./myprogram'', ''5'', ''6'']
       [(''wibble'', ''7''), (''wobble'', ''8'')]"
proof -
  have d: "distinct (map fst [(''wibble'', ''7''), (''wobble'', ''8'')])"
    by simp
  have d': "distinct (map fst [(''wobble'', ''8''), (''wibble'', ''7'')])
      \<and> set [(''wobble'', ''8''), (''wibble'', ''7'')] = set [(''wibble'', ''7''), (''wobble'', ''8'')]"
    by auto
  have asc: "set [(''wibble'', ''7''), (''wobble'', ''8'')] = set [(''wibble'', ''7''), (''wobble'', ''8'')]
      \<and> sorted_wrt (<) (map fst [(''wibble'', ''7''), (''wobble'', ''8'')])"
    by simp
  note spec = create_docker_command_spec [OF d, of "\<lambda>s. s" "[''./myprogram'', ''5'', ''6'']"]
  from spec have "create_docker_command (\<lambda>s. s) [''./myprogram'', ''5'', ''6'']
       [(''wibble'', ''7''), (''wobble'', ''8'')] =
       join_str '' '' (map (\<lambda>s. s) [''./myprogram'', ''5'', ''6''] @
          map (\<lambda>(k, v). ''--'' @ k @ '' '' @ v) [(''wibble'', ''7''), (''wobble'', ''8'')])"
    using asc by blast
  moreover from spec have "create_docker_command (\<lambda>s. s) [''./myprogram'', ''5'', ''6'']
       [(''wobble'', ''8''), (''wibble'', ''7'')] = create_docker_command (\<lambda>s. s) [''./myprogram'', ''5'', ''6'']
       [(''wibble'', ''7''), (''wobble'', ''8'')]"
    using d' by blast
  ultimately show ?thesis
    by simp
qed

subsection \<open>Notification messages\<close>

lemma and_then_Inr_iff:
  "and_then r f = Inr y \<longleftrightarrow> (\<exists>x. r = Inr x \<and> f x = Inr y)"
  by (cases r) simp_all

lemma subscript_Inr_iff:
  "subscript x k = Inr v \<longleftrightarrow> (\<exists>kvs. x = JDict kvs \<and> map_of kvs k = Some v)"
  by (cases x) (auto split: option.splits)

lemma subscript2_entry:
  "subscript2 m a b = Inr v \<longleftrightarrow> entry m a b = Some v"
  by (auto simp: subscript2_def entry_def and_then_Inr_iff subscript_Inr_iff
      split: option.splits json.splits)

lemma item_Inr_iff: "item xs i = Inr x \<longleftrightarrow> i < length xs \<and> x = xs ! i"
  by (auto simp: item_def)

lemma check_message_try_sound:
  assumes "check_message_try DONE pa m = Inr True"
  shows "message_matches DONE pa m"
proof (cases "length pa = 1")
  case True
  with assms show ?thesis
    by (auto simp: check_message_try_def message_matches_def and_then_Inr_iff
        subscript2_entry item_Inr_iff split: if_splits)
next
  case False
  with assms show ?thesis
    by (auto simp: check_message_try_def message_matches_def and_then_Inr_iff
        subscript2_entry item_Inr_iff split: if_splits)
qed

lemma check_message_True_iff:
  "check_message DONE pa m = Inr True \<longleftrightarrow> check_message_try DONE pa m = Inr True"
  by (auto simp: check_message_def split: sum.splits py_error.splits)

lemma subscript2_dict_shaped:
  assumes "dict_shaped m" and "a = ''object'' \<or> a = ''run''"
  shows "subscript2 m a b = (case entry m a b of None \<Rightarrow> Inl KeyError | Some v \<Rightarrow> Inr v)"
proof -
  from assms(1) obtain kvs where m: "m = JDict kvs"
    by (cases m) (simp_all add: dict_shaped_def)
  show ?thesis
  proof (cases "map_of kvs a")
    case None
    with m show ?thesis
      by (simp add: subscript2_def entry_def)
  next
    case (Some x)
    with assms m obtain kvs' where "x = JDict kvs'"
      by (cases x) (auto simp: dict_shaped_def)
    with Some m show ?thesis
      by (simp add: subscript2_def entry_def split: option.splits)
  qed
qed

lemma check_message_try_dict_shaped:
  assumes "dict_shaped m" and "pa \<noteq> []"
  shows "check_message_try DONE pa m = Inr (message_matches DONE pa m)
       \<or> (check_message_try DONE pa m = Inl KeyError \<and> \<not> message_matches DONE pa m)"
proof (cases "length pa = 1")
  case True
  with assms show ?thesis
    by (auto simp: check_message_try_def message_matches_def subscript2_dict_shaped
        item_def split: option.splits)
next
  case False
  with assms have "1 < length pa"
    by (cases pa) auto
  with False assms show ?thesis
    by (auto simp: check_message_try_def message_matches_def subscript2_dict_shaped
        item_def split: option.splits)
qed

lemma check_message_dict_shaped:
  assumes "dict_shaped m" and "pa \<noteq> []"
  shows "check_message DONE pa m = Inr (message_matches DONE pa m)"
  using check_message_try_dict_shaped [OF assms, of DONE]
  by (auto simp: check_message_def)

lemma message_matches_needs_entries:
  assumes "entry m ''object'' ''id'' = None \<or> entry m ''run'' ''state'' = None
      \<or> (length pa \<noteq> 1 \<and> entry m ''run'' ''id'' = None)"
  shows "\<not> message_matches DONE pa m"
  using assms by (auto simp: message_matches_def split: option.splits)

text \<open>
  C10 (as the code has it).  \<open>_check_message\<close> returns \<open>True\<close> only when the message's object
  id equals the tracker's job id, its run state is in \<open>DONE\<close> and, when the poller arguments
  carry a run id, its run id equals that run id; so the listener calls the completion
  callback for no other message.  A \<open>KeyError\<close> never leaves the method.  For a tracker
  with a job id and a message that is a dictionary whose \<open>object\<close> and \<open>run\<close> entries, where
  present, are dictionaries, the method does not raise: it returns whether the message
  matches, hence \<open>False\<close> when one of the expected keys is missing.
\<close>

theorem check_message_spec:
  "(check_message DONE pa m = Inr True \<longrightarrow> message_matches DONE pa m)
   \<and> (listener_calls_back DONE pa m \<longrightarrow> message_matches DONE pa m)
   \<and> check_message DONE pa m \<noteq> Inl KeyError
   \<and> (dict_shaped m \<and> pa \<noteq> [] \<longrightarrow>
        check_message DONE pa m = Inr (message_matches DONE pa m))
   \<and> (dict_shaped m \<and> pa \<noteq> [] \<and>
        (entry m ''object'' ''id'' = None \<or> entry m ''run'' ''state'' = None
         \<or> (length pa \<noteq> 1 \<and> entry m ''run'' ''id'' = None)) \<longrightarrow>
        check_message DONE pa m = Inr False)"
proof -
  have sound: "message_matches DONE pa m" if "check_message DONE pa m = Inr True"
    using that by (simp add: check_message_True_iff check_message_try_sound)
  have no_key_error: "check_message DONE pa m \<noteq> Inl KeyError"
    by (simp add: check_message_def split: sum.splits py_error.splits)
  have shaped: "check_message DONE pa m = Inr (message_matches DONE pa m)"
    if "dict_shaped m" and "pa \<noteq> []"
    using that by (rule check_message_dict_shaped)
  have missing: "check_message DONE pa m = Inr False"
    if "dict_shaped m" and "pa \<noteq> []"
      and "entry m ''object'' ''id'' = None \<or> entry m ''run'' ''state'' = None
         \<or> (length pa \<noteq> 1 \<and> entry m ''run'' ''id'' = None)"
    using that(3) shaped [OF that(1,2)] message_matches_needs_entries [of m pa DONE]
    by simp
  show ?thesis
    using sound no_key_error shaped missing
    unfolding listener_calls_back_def by blast
qed

theorem check_message_spec_witness:
  "check_message [''succeeded'', ''failed'', ''cancelled''] [7, 12]
     (JDict [(''object'', JDict [(''id'', JInt 7)]),
             (''run'', JDict [(''id'', JInt 12), (''state'', JStr ''failed'')])]) = Inr True
   \<and> message_matches [''succeeded'', ''failed'', ''cancelled''] [7, 12]
     (JDict [(''object'', JDict [(''id'', JInt 7)]),
             (''run'', JDict [(''id'', JInt 12), (''state'', JStr ''failed'')])])
   \<and> check_message [''succeeded'', ''failed'', ''cancelled''] [7, 12]
     (JDict [(''object'', JDict [(''id'', JInt 7)]),
             (''run'', JDict [(''id'', JInt 12)])]) = Inr False"
proof -
  let ?DONE = "[''succeeded'', ''failed'', ''cancelled'']"
  let ?m = "JDict [(''object'', JDict [(''id'', JInt 7)]),
             (''run'', JDict [(''id'', JInt 12), (''state'', JStr ''failed'')])]"
  let ?m' = "JDict [(''object'', JDict [(''id'', JInt 7)]),
             (''run'', JDict [(''id'', JInt 12)])]"
  have shaped: "dict_shaped ?m \<and> [7, 12 :: int] \<noteq> []"
    by (simp add: dict_shaped_def)
  have m: "message_matches ?DONE [7, 12] ?m"
    by (simp add: message_matches_def entry_def)
  have shaped': "dict_shaped ?m' \<and> [7, 12 :: int] \<noteq> [] \<and>
        (entry ?m' ''object'' ''id'' = None \<or> entry ?m' ''run'' ''state'' = None
         \<or> (length [7, 12 :: int] \<noteq> 1 \<and> entry ?m' ''run'' ''id'' = None))"
    by (simp add: dict_shaped_def entry_def)
  from check_message_spec [of ?DONE "[7, 12]" ?m] shaped m
  have "check_message ?DONE [7, 12] ?m = Inr True"
    by simp
  moreover from check_message_spec [of ?DONE "[7, 12]" ?m'] shaped'
  have "check_message ?DONE [7, 12] ?m' = Inr False"
    by blast
  ultimately show ?thesis
    using m by simp
qed

text \<open>
  A message whose \<open>object\<close> entry is a number: \<open>message['object']['id']\<close> subscripts an
  integer, which raises \<open>TypeError\<close>; the method catches \<open>KeyError\<close> only.
\<close>

theorem check_message_raises_counterexample:
  "check_message [''succeeded'', ''failed'', ''cancelled''] [7, 12]
     (JDict [(''object'', JInt 7)]) = Inl TypeError"
  by (simp add: check_message_def check_message_try_def subscript2_def)

subsection \<open>Submission with retries\<close>

lemma submit_loop_stops:
  assumes "n \<le> j" and "j < nat (1 + k)" and "int j < max 1 k"
    and "\<forall>i. n \<le> i \<and> i < j \<longrightarrow> transient_failure submit i"
    and "\<not> transient_failure submit j"
  shows "submit_loop submit k [n ..< nat (1 + k)] c sl =
     \<lparr>outcome = submit j, attempts = c + (j - n) + 1, slept = sl @ map (\<lambda>i. 2 ^ i) [n ..< j]\<rparr>"
  using assms
proof (induction "j - n" arbitrary: n c sl)
  case 0
  then have "n = j" by simp
  with 0 show ?case
    by (cases "submit j") (simp_all add: upt_conv_Cons transient_failure_def)
next
  case (Suc d)
  then have lt: "n < j" and tf: "transient_failure submit n" by auto
  from tf obtain e where e: "submit n = Inl e" "is_CivisAPIError e"
    by (auto simp: transient_failure_def split: sum.splits)
  from lt Suc.prems have left: "\<not> k - int n - 1 < 1" by auto
  have "submit_loop submit k [n ..< nat (1 + k)] c sl =
      submit_loop submit k [Suc n ..< nat (1 + k)] (Suc c) (sl @ [2 ^ n])"
    using lt Suc.prems e left by (simp add: upt_conv_Cons)
  also have "\<dots> = \<lparr>outcome = submit j, attempts = Suc c + (j - Suc n) + 1,
      slept = (sl @ [2 ^ n]) @ map (\<lambda>i. 2 ^ i) [Suc n ..< j]\<rparr>"
    using Suc.hyps(2) lt Suc.prems by (intro Suc.hyps(1)) auto
  also have "\<dots> = \<lparr>outcome = submit j, attempts = c + (j - n) + 1,
      slept = sl @ map (\<lambda>i. 2 ^ i) [n ..< j]\<rparr>"
    using lt by (simp add: upt_conv_Cons)
  finally show ?case .
qed

lemma submit_loop_step:
  assumes "n < nat (1 + k)" and "submit n = Inl e" and "is_CivisAPIError e"
  shows "submit_loop submit k [n ..< nat (1 + k)] c sl =
    (if k - int n - 1 < 1
     then \<lparr>outcome = Inl (JobSubmissionError e), attempts = Suc c, slept = sl\<rparr>
     else submit_loop submit k [Suc n ..< nat (1 + k)] (Suc c) (sl @ [2 ^ n]))"
proof -
  from assms(1) have "[n ..< nat (1 + k)] = n # [Suc n ..< nat (1 + k)]"
    by (rule upt_conv_Cons)
  with assms(2,3) show ?thesis
    by (simp add: Let_def)
qed

lemma submit_loop_exhausted:
  assumes "0 \<le> k" and "int m = max 1 k" and "n < m"
    and "\<forall>i. n \<le> i \<and> i < m \<longrightarrow> transient_failure submit i"
    and "submit (m - 1) = Inl e"
  shows "submit_loop submit k [n ..< nat (1 + k)] c sl =
     \<lparr>outcome = Inl (JobSubmissionError e), attempts = c + (m - n),
      slept = sl @ map (\<lambda>i. 2 ^ i) [n ..< m - 1]\<rparr>"
  using assms(3,4)
proof (induction "m - 1 - n" arbitrary: n c sl)
  case 0
  then have n: "n = m - 1" and m: "m - n = 1" by auto
  from 0 have "transient_failure submit n" by auto
  with n assms(5) have api: "is_CivisAPIError e" and sub: "submit n = Inl e"
    by (simp_all add: transient_failure_def)
  from n 0 assms(1,2) have "n < nat (1 + k)" and "k - int n - 1 < 1" by auto
  with api sub have "submit_loop submit k [n ..< nat (1 + k)] c sl =
      \<lparr>outcome = Inl (JobSubmissionError e), attempts = Suc c, slept = sl\<rparr>"
    by (simp add: submit_loop_step)
  moreover have "[n ..< m - 1] = []" using n by simp
  ultimately show ?case using m by simp
next
  case (Suc d)
  then have lt: "n < m - 1" by auto
  from Suc.prems have "transient_failure submit n" by auto
  then obtain e' where e': "submit n = Inl e'" "is_CivisAPIError e'"
    by (auto simp: transient_failure_def split: sum.splits)
  from lt assms(1,2) have left: "\<not> k - int n - 1 < 1" and range: "n < nat (1 + k)"
    by auto
  have "submit_loop submit k [n ..< nat (1 + k)] c sl =
      submit_loop submit k [Suc n ..< nat (1 + k)] (Suc c) (sl @ [2 ^ n])"
    using range e' left by (simp add: submit_loop_step)
  also have "\<dots> = \<lparr>outcome = Inl (JobSubmissionError e),
      attempts = Suc c + (m - Suc n),
      slept = (sl @ [2 ^ n]) @ map (\<lambda>i. 2 ^ i) [Suc n ..< m - 1]\<rparr>"
  proof (rule Suc.hyps(1))
    show "d = m - 1 - Suc n" using Suc.hyps(2) by simp
    show "Suc n < m" using lt by simp
    show "\<forall>i. Suc n \<le> i \<and> i < m \<longrightarrow> transient_failure submit i"
      using Suc.prems(2) by simp
  qed
  also have "\<dots> = \<lparr>outcome = Inl (JobSubmissionError e),
      attempts = c + (m - n),
      slept = sl @ map (\<lambda>i. 2 ^ i) [n ..< m - 1]\<rparr>"
    using lt by (simp add: upt_conv_Cons)
  finally show ?case .
qed

lemma apply_async_submit_stops:
  assumes "0 \<le> k" and "j < max_attempts k"
    and "\<forall>i<j. transient_failure submit i" and "\<not> transient_failure submit j"
  shows "apply_async_submit submit k =
     \<lparr>outcome = submit j, attempts = Suc j, slept = backoff j\<rparr>"
proof -
  from assms(1,2) have "j < nat (1 + k)" and "int j < max 1 k"
    by (auto simp: max_attempts_def)
  with assms(3,4) show ?thesis
    using submit_loop_stops [of 0 j k submit 0 "[]"]
    by (simp add: apply_async_submit_def submit_range_def backoff_def)
qed

lemma apply_async_submit_exhausted:
  assumes "0 \<le> k" and "\<forall>i<max_attempts k. transient_failure submit i"
  shows "\<exists>e. submit (max_attempts k - 1) = Inl e \<and>
     apply_async_submit submit k =
       \<lparr>outcome = Inl (JobSubmissionError e), attempts = max_attempts k,
        slept = backoff (max_attempts k - 1)\<rparr>"
proof -
  from assms(1) have pos: "0 < max_attempts k"
    by (simp add: max_attempts_def)
  with assms(2) have "transient_failure submit (max_attempts k - 1)" by simp
  then obtain e where e: "submit (max_attempts k - 1) = Inl e"
    by (auto simp: transient_failure_def split: sum.splits)
  have m: "int (max_attempts k) = max 1 k"
    by (simp add: max_attempts_def)
  have "\<forall>i. 0 \<le> i \<and> i < max_attempts k \<longrightarrow> transient_failure submit i"
    using assms(2) by simp
  from submit_loop_exhausted [OF assms(1) m pos this e, of 0 "[]"]
  have "apply_async_submit submit k =
       \<lparr>outcome = Inl (JobSubmissionError e), attempts = max_attempts k,
        slept = backoff (max_attempts k - 1)\<rparr>"
    by (simp add: apply_async_submit_def submit_range_def backoff_def)
  with e show ?thesis by blast
qed

lemma apply_async_submit_cases:
  assumes "0 \<le> k"
  obtains (stops) j where "j < max_attempts k" and "\<forall>i<j. transient_failure submit i"
      and "\<not> transient_failure submit j"
      and "apply_async_submit submit k =
        \<lparr>outcome = submit j, attempts = Suc j, slept = backoff j\<rparr>"
  | (exhausted) e where "\<forall>i<max_attempts k. transient_failure submit i"
      and "submit (max_attempts k - 1) = Inl e"
      and "apply_async_submit submit k =
        \<lparr>outcome = Inl (JobSubmissionError e), attempts = max_attempts k,
         slept = backoff (max_attempts k - 1)\<rparr>"
proof (cases "\<exists>j<max_attempts k. \<not> transient_failure submit j")
  case True
  then obtain j where j: "j < max_attempts k" "\<not> transient_failure submit j"
    and least: "\<forall>i<j. \<not> (i < max_attempts k \<and> \<not> transient_failure submit i)"
    using exists_least_iff [of "\<lambda>j. j < max_attempts k \<and> \<not> transient_failure submit j"]
    by blast
  from j(1) least have before: "\<forall>i<j. transient_failure submit i"
    by auto
  from assms j(1) before j(2) have "apply_async_submit submit k =
        \<lparr>outcome = submit j, attempts = Suc j, slept = backoff j\<rparr>"
    by (rule apply_async_submit_stops)
  with j(1) before j(2) show ?thesis
    by (rule stops)
next
  case False
  then have all: "\<forall>i<max_attempts k. transient_failure submit i" by blast
  from apply_async_submit_exhausted [OF assms all] obtain e
    where "submit (max_attempts k - 1) = Inl e"
      and "apply_async_submit submit k =
        \<lparr>outcome = Inl (JobSubmissionError e), attempts = max_attempts k,
         slept = backoff (max_attempts k - 1)\<rparr>"
    by blast
  with all show ?thesis
    by (rule exhausted)
qed

text \<open>
  C2 (as the code has it).  For every \<open>max_submit_retries = k\<close> (not negative, as the
  constructor requires), the loop calls \<open>executor.submit\<close> at least once and at most
  \<open>max(1, k)\<close> times, that is up to \<open>k\<close> times when \<open>k \<ge> 1\<close>.  After the \<open>i\<close>-th failed attempt
  (\<open>i = 0, 1, ...\<close>) that is followed by another attempt it sleeps \<open>2 ^ i\<close> seconds.  Only a
  \<open>CivisAPIError\<close> is retried: the first attempt that returns a future or raises anything
  else ends the loop with that future or that exception.  When every attempt raises a
  \<open>CivisAPIError\<close>, the loop raises a \<open>JobSubmissionError\<close>, which is not the exception of
  a failed run.  With \<open>k = 3\<close>, errors on attempts 1 and 2 and success on attempt 3, the
  back-off slept is \<open>2 ^ 0 + 2 ^ 1\<close> seconds and the submission succeeds.
\<close>

theorem apply_async_submit_spec:
  assumes "0 \<le> k"
  shows "1 \<le> attempts (apply_async_submit submit k)
    \<and> attempts (apply_async_submit submit k) \<le> max_attempts k
    \<and> (1 \<le> k \<longrightarrow> int (attempts (apply_async_submit submit k)) \<le> k)
    \<and> slept (apply_async_submit submit k) =
        backoff (attempts (apply_async_submit submit k) - 1)
    \<and> (\<forall>j<max_attempts k.
          (\<forall>i<j. transient_failure submit i) \<and> \<not> transient_failure submit j \<longrightarrow>
          outcome (apply_async_submit submit k) = submit j \<and>
          attempts (apply_async_submit submit k) = Suc j \<and>
          slept (apply_async_submit submit k) = backoff j)
    \<and> ((\<forall>i<max_attempts k. transient_failure submit i) \<longrightarrow>
          attempts (apply_async_submit submit k) = max_attempts k \<and>
          (\<exists>e. submit (max_attempts k - 1) = Inl e \<and>
             outcome (apply_async_submit submit k) = Inl (JobSubmissionError e) \<and>
             (\<forall>msg. JobSubmissionError e \<noteq> CivisJobFailure msg)))
    \<and> (k = 3 \<and> transient_failure submit 0 \<and> transient_failure submit 1 \<and>
        submit 2 = Inr fut \<longrightarrow>
          outcome (apply_async_submit submit k) = Inr fut \<and>
          attempts (apply_async_submit submit k) = 3 \<and>
          slept (apply_async_submit submit k) = [2 ^ 0, 2 ^ 1] \<and>
          sum_list (slept (apply_async_submit submit k)) = 2 ^ 0 + 2 ^ 1)"
proof -
  let ?S = "apply_async_submit submit k"
  have bounds: "1 \<le> attempts ?S \<and> attempts ?S \<le> max_attempts k
      \<and> slept ?S = backoff (attempts ?S - 1)"
    using assms
  proof (cases rule: apply_async_submit_cases [where submit = submit])
    case (stops j)
    then show ?thesis by simp
  next
    case (exhausted e)
    moreover from assms have "0 < max_attempts k"
      by (simp add: max_attempts_def)
    ultimately show ?thesis by simp
  qed
  then have upto: "int (attempts ?S) \<le> k" if "1 \<le> k"
    using that by (auto simp: max_attempts_def)
  have stop: "outcome ?S = submit j \<and> attempts ?S = Suc j \<and> slept ?S = backoff j"
    if "j < max_attempts k" and "\<forall>i<j. transient_failure submit i"
      and "\<not> transient_failure submit j" for j
    using apply_async_submit_stops [OF assms that] by simp
  have exhaust: "attempts ?S = max_attempts k \<and>
      (\<exists>e. submit (max_attempts k - 1) = Inl e \<and> outcome ?S = Inl (JobSubmissionError e) \<and>
         (\<forall>msg. JobSubmissionError e \<noteq> CivisJobFailure msg))"
    if "\<forall>i<max_attempts k. transient_failure submit i"
    using apply_async_submit_exhausted [OF assms that] by auto
  have scenario: "outcome ?S = Inr fut \<and> attempts ?S = 3 \<and> slept ?S = [2 ^ 0, 2 ^ 1]
      \<and> sum_list (slept ?S) = 2 ^ 0 + 2 ^ 1"
    if k: "k = 3" and f: "transient_failure submit 0" "transient_failure submit 1"
      and ok: "submit 2 = Inr fut"
  proof -
    have "(2::nat) < max_attempts k"
      using k by (simp add: max_attempts_def)
    moreover have "\<forall>i<2. transient_failure submit i"
      using f by (auto simp: less_Suc_eq numeral_2_eq_2)
    moreover have "\<not> transient_failure submit 2"
      using ok by (simp add: transient_failure_def)
    ultimately have "outcome ?S = submit 2 \<and> attempts ?S = Suc 2 \<and> slept ?S = backoff 2"
      by (rule stop)
    moreover have "backoff 2 = [2 ^ 0, 2 ^ 1]"
      by (simp add: backoff_def numeral_2_eq_2)
    ultimately show ?thesis
      using ok by simp
  qed
  show ?thesis
    using bounds upto stop exhaust scenario by blast
qed

theorem apply_async_submit_spec_witness:
  "outcome (apply_async_submit
      (\<lambda>i. if i < 2 then Inl (CivisAPIError ''503'') else Inr (4711 :: int)) 3) = Inr 4711
   \<and> slept (apply_async_submit
      (\<lambda>i. if i < 2 then Inl (CivisAPIError ''503'') else Inr (4711 :: int)) 3) = [1, 2]
   \<and> attempts (apply_async_submit
      (\<lambda>i. if i < 2 then Inl (CivisAPIError ''503'') else Inr (4711 :: int)) 3) = 3"
proof -
  let ?submit = "\<lambda>i::nat. if i < 2 then Inl (CivisAPIError ''503'') else Inr (4711 :: int)"
  have k: "(0::int) \<le> 3" by simp
  have pre: "(3::int) = 3 \<and> transient_failure ?submit 0 \<and> transient_failure ?submit 1 \<and>
      ?submit 2 = Inr 4711"
    by (simp add: transient_failure_def)
  from apply_async_submit_spec [OF k, of ?submit 4711] pre
  have "outcome (apply_async_submit ?submit 3) = Inr 4711 \<and>
      attempts (apply_async_submit ?submit 3) = 3 \<and>
      slept (apply_async_submit ?submit 3) = [2 ^ 0, 2 ^ 1]"
    by blast
  then show ?thesis by simp
qed

text \<open>
  With \<open>max_submit_retries = 0\<close>, the default, the loop makes one attempt, not at most
  zero, and the submission succeeds when that attempt does.
\<close>

theorem apply_async_submit_counterexample:
  "attempts (apply_async_submit (\<lambda>i. Inr (4711 :: int)) 0) = 1
   \<and> outcome (apply_async_submit (\<lambda>i. Inr (4711 :: int)) 0) = Inr 4711"
  by (simp add: apply_async_submit_def submit_range_def)

subsection \<open>Retrying a failed run\<close>

lemma runs_started_append [simp]:
  "runs_started (xs @ ys) = runs_started xs @ runs_started ys"
  by (simp add: runs_started_def)

lemma runs_started_simps [simp]:
  "runs_started [] = []"
  "runs_started (PostRuns job # reqs) = job # runs_started reqs"
  "runs_started (PostCancel job # reqs) = runs_started reqs"
  "runs_started (ChannelsList # reqs) = runs_started reqs"
  by (simp_all add: runs_started_def)

lemma set_api_exception_retries:
  assumes "0 < max_n_retries t" and "post_runs remote reqs (job_id t) = Inr r"
    and "channels_list remote (reqs @ [PostRuns (job_id t)]) = None"
  shows "\<exists>reqs' t'. set_api_exception remote exc res (reqs, t) = (None, reqs', t')
    \<and> max_n_retries t' = max_n_retries t - 1
    \<and> job_id t' = job_id t \<and> run_id t' = rid r \<and> last_result t' = Some r
    \<and> stored_exception t' = stored_exception t \<and> stored_result t' = stored_result t
    \<and> polling t' \<and> has_pubnub t' = has_pubnub t
    \<and> runs_started reqs' = runs_started reqs @ [job_id t]"
  using assms
  by (auto simp: set_api_exception_def cleanup_def Let_def)

lemma set_api_exception_terminal:
  assumes "\<not> 0 < max_n_retries t"
  shows "set_api_exception remote exc res (reqs, t) =
      (None, reqs, base_set_api_exception exc res t)"
  using assms by (simp add: set_api_exception_def)

lemma base_set_api_exception_fields:
  "stored_exception (base_set_api_exception exc res t) = Some exc"
  "job_id (base_set_api_exception exc res t) = job_id t"
  "run_id (base_set_api_exception exc res t) = run_id t"
  "max_n_retries (base_set_api_exception exc res t) = max_n_retries t"
  "\<not> polling (base_set_api_exception exc res t)"
  "failed (base_set_api_exception exc None t)"
  "future_done (base_set_api_exception exc None t)"
  by (simp_all add: base_set_api_exception_def cleanup_def Let_def failed_def
      future_done_def status_def)

lemma fail_repeatedly_absorbs:
  assumes "answers_runs remote" and "int (length excs) \<le> max_n_retries t"
  shows "\<exists>reqs' t'. fail_repeatedly remote excs (reqs, t) = (None, reqs', t')
    \<and> max_n_retries t' = max_n_retries t - int (length excs)
    \<and> job_id t' = job_id t
    \<and> stored_exception t' = stored_exception t \<and> stored_result t' = stored_result t
    \<and> has_pubnub t' = has_pubnub t
    \<and> runs_started reqs' = runs_started reqs @ replicate (length excs) (job_id t)
    \<and> (excs \<noteq> [] \<longrightarrow> polling t' \<and> map_option rid (last_result t') = Some (run_id t'))"
  using assms(2)
proof (induction excs arbitrary: reqs t)
  case Nil
  then show ?case by simp
next
  case (Cons exc excs)
  then have pos: "0 < max_n_retries t" by simp
  from assms(1) obtain r where r: "post_runs remote reqs (job_id t) = Inr r"
    unfolding answers_runs_def by blast
  from assms(1) have c: "channels_list remote (reqs @ [PostRuns (job_id t)]) = None"
    unfolding answers_runs_def by blast
  from set_api_exception_retries [OF pos r c, of exc None]
  obtain reqs1 t1 where step: "set_api_exception remote exc None (reqs, t) = (None, reqs1, t1)"
    and t1: "max_n_retries t1 = max_n_retries t - 1" "job_id t1 = job_id t"
      "run_id t1 = rid r" "last_result t1 = Some r"
      "stored_exception t1 = stored_exception t" "stored_result t1 = stored_result t"
      "polling t1" "has_pubnub t1 = has_pubnub t"
      "runs_started reqs1 = runs_started reqs @ [job_id t]"
    by blast
  from Cons.prems t1(1) have "int (length excs) \<le> max_n_retries t1" by simp
  from Cons.IH [OF this, of reqs1]
  obtain reqs' t' where rest: "fail_repeatedly remote excs (reqs1, t1) = (None, reqs', t')"
    and t': "max_n_retries t' = max_n_retries t1 - int (length excs)"
      "job_id t' = job_id t1"
      "stored_exception t' = stored_exception t1" "stored_result t' = stored_result t1"
      "has_pubnub t' = has_pubnub t1"
      "runs_started reqs' = runs_started reqs1 @ replicate (length excs) (job_id t1)"
      "excs \<noteq> [] \<longrightarrow> polling t' \<and> map_option rid (last_result t') = Some (run_id t')"
    by blast
  have last: "polling t' \<and> map_option rid (last_result t') = Some (run_id t')"
  proof (cases excs)
    case Nil
    with rest t1 show ?thesis by simp
  next
    case (Cons a list)
    with t'(7) show ?thesis by simp
  qed
  have "fail_repeatedly remote (exc # excs) (reqs, t) = (None, reqs', t')"
    using step rest by simp
  moreover have "runs_started reqs' =
      runs_started reqs @ replicate (length (exc # excs)) (job_id t)"
    using t'(6) t1 by (simp add: replicate_app_Cons_same)
  ultimately show ?case
    using t1 t' last by auto
qed

lemma fail_repeatedly_append:
  "fail_repeatedly remote (xs @ ys) s =
     (case fail_repeatedly remote xs s of
        (Some e, s') \<Rightarrow> (Some e, s')
      | (None, s') \<Rightarrow> fail_repeatedly remote ys s')"
  by (induction xs arbitrary: s) (auto split: prod.splits option.splits)

text \<open>
  C1. For every tracker constructed with retry budget \<open>n = max_n_retries\<close> (not negative)
  and a remote service that answers the requests for new runs, the failure path absorbs
  exactly \<open>n\<close> failures: each absorbed failure decrements the budget by one, starts a new
  run of the same job and rebinds the poller arguments to the new run id, and records no
  terminal exception.  After \<open>n\<close> failures the budget is zero, \<open>n\<close> runs have been started and
  the tracker is not done; the failure after them is recorded as the terminal exception
  and starts no run.  With budget 0 the first failure is recorded at once.
\<close>

theorem set_api_exception_budget:
  assumes "answers_runs remote" and "0 \<le> n" and "length excs = nat n"
  shows "(\<forall>reqs t r. 0 < max_n_retries t \<and> post_runs remote reqs (job_id t) = Inr r \<longrightarrow>
        (\<exists>reqs' t'. set_api_exception remote exc None (reqs, t) = (None, reqs', t') \<and>
           max_n_retries t' = max_n_retries t - 1 \<and>
           runs_started reqs' = runs_started reqs @ [job_id t] \<and>
           poller_args t' = [job_id t, rid r] \<and>
           stored_exception t' = stored_exception (t :: tracker) \<and>
           stored_result t' = stored_result t))
    \<and> (\<exists>reqs' t'.
          fail_repeatedly remote excs ([], ContainerFuture job run n pubnub) = (None, reqs', t') \<and>
          max_n_retries t' = 0 \<and> stored_exception t' = None \<and> \<not> future_done t' \<and>
          runs_started reqs' = replicate (nat n) job)
    \<and> (\<exists>reqs' t'.
          fail_repeatedly remote (excs @ [exc]) ([], ContainerFuture job run n pubnub)
            = (None, reqs', t') \<and>
          stored_exception t' = Some exc \<and> failed t' \<and> future_done t' \<and>
          runs_started reqs' = replicate (nat n) job)
    \<and> (n = 0 \<longrightarrow>
        (\<exists>t'. set_api_exception remote exc None ([], ContainerFuture job run n pubnub)
            = (None, [], t') \<and>
          stored_exception t' = Some exc \<and> failed t' \<and> future_done t'))"
proof -
  let ?t0 = "ContainerFuture job run n pubnub"
  have step: "\<exists>reqs' t'. set_api_exception remote exc None (reqs, t) = (None, reqs', t') \<and>
           max_n_retries t' = max_n_retries t - 1 \<and>
           runs_started reqs' = runs_started reqs @ [job_id t] \<and>
           poller_args t' = [job_id t, rid r] \<and>
           stored_exception t' = stored_exception t \<and>
           stored_result t' = stored_result t"
    if "0 < max_n_retries t" and "post_runs remote reqs (job_id t) = Inr r"
    for reqs and t :: tracker and r
  proof -
    from assms(1) have "channels_list remote (reqs @ [PostRuns (job_id t)]) = None"
      unfolding answers_runs_def by blast
    from set_api_exception_retries [OF that this, of exc None] show ?thesis
      unfolding poller_args_def by auto
  qed
  have t0: "max_n_retries ?t0 = n" "job_id ?t0 = job" "stored_exception ?t0 = None"
    "stored_result ?t0 = None"
    by (simp_all add: ContainerFuture_def)
  from assms(2,3) t0(1) have "int (length excs) \<le> max_n_retries ?t0" by simp
  from fail_repeatedly_absorbs [OF assms(1) this, of "[]"]
  obtain reqs' t' where abs: "fail_repeatedly remote excs ([], ?t0) = (None, reqs', t')"
    and t': "max_n_retries t' = max_n_retries ?t0 - int (length excs)"
      "job_id t' = job_id ?t0" "stored_exception t' = stored_exception ?t0"
      "stored_result t' = stored_result ?t0"
      "runs_started reqs' = runs_started [] @ replicate (length excs) (job_id ?t0)"
    by blast
  from t' t0 assms(2,3) have zero: "max_n_retries t' = 0" and none: "stored_exception t' = None"
    and pending: "\<not> future_done t'" and started: "runs_started reqs' = replicate (nat n) job"
    by (simp_all add: future_done_def status_def)
  from zero have last: "set_api_exception remote exc None (reqs', t') =
      (None, reqs', base_set_api_exception exc None t')"
    by (simp add: set_api_exception_terminal)
  have "fail_repeatedly remote (excs @ [exc]) ([], ?t0) =
      (None, reqs', base_set_api_exception exc None t')"
    using abs last by (simp add: fail_repeatedly_append)
  then have surfaced: "\<exists>reqs' t'.
      fail_repeatedly remote (excs @ [exc]) ([], ?t0) = (None, reqs', t') \<and>
      stored_exception t' = Some exc \<and> failed t' \<and> future_done t' \<and>
      runs_started reqs' = replicate (nat n) job"
    using started by (simp add: base_set_api_exception_fields)
  have immediate: "\<exists>t'. set_api_exception remote exc None ([], ?t0) = (None, [], t') \<and>
      stored_exception t' = Some exc \<and> failed t' \<and> future_done t'" if "n = 0"
    using that t0(1) by (simp add: set_api_exception_terminal base_set_api_exception_fields)
  show ?thesis
    using step abs zero none pending started surfaced immediate by blast
qed

theorem set_api_exception_budget_witness:
  "stored_exception (snd (snd (fail_repeatedly
      \<lparr>post_runs = (\<lambda>reqs job. Inr \<lparr>rid = 100 + int (length reqs), rstate = Queued\<rparr>),
       post_cancel = (\<lambda>reqs job. Inr \<lparr>rid = 0, rstate = Cancelled\<rparr>),
       channels_list = (\<lambda>reqs. None)\<rparr>
      [CivisJobFailure ''first'', CivisJobFailure ''second'', CivisJobFailure ''third'']
      ([], ContainerFuture 7 1 2 False)))) = Some (CivisJobFailure ''third'')
   \<and> runs_started (fst (snd (fail_repeatedly
      \<lparr>post_runs = (\<lambda>reqs job. Inr \<lparr>rid = 100 + int (length reqs), rstate = Queued\<rparr>),
       post_cancel = (\<lambda>reqs job. Inr \<lparr>rid = 0, rstate = Cancelled\<rparr>),
       channels_list = (\<lambda>reqs. None)\<rparr>
      [CivisJobFailure ''first'', CivisJobFailure ''second'', CivisJobFailure ''third'']
      ([], ContainerFuture 7 1 2 False)))) = [7, 7]"
proof -
  let ?remote = "\<lparr>post_runs = (\<lambda>reqs job. Inr \<lparr>rid = 100 + int (length reqs), rstate = Queued\<rparr>),
       post_cancel = (\<lambda>reqs job. Inr \<lparr>rid = 0, rstate = Cancelled\<rparr>),
       channels_list = (\<lambda>reqs. None)\<rparr>"
  have a: "answers_runs ?remote"
    by (simp add: answers_runs_def)
  have n: "(0::int) \<le> 2" by simp
  have l: "length [CivisJobFailure ''first'', CivisJobFailure ''second''] = nat 2" by simp
  from set_api_exception_budget [OF a n l, of "CivisJobFailure ''third''" 7 1 False]
  obtain reqs' t' where "fail_repeatedly ?remote
      ([CivisJobFailure ''first'', CivisJobFailure ''second''] @ [CivisJobFailure ''third''])
      ([], ContainerFuture 7 1 2 False) = (None, reqs', t')"
    and "stored_exception t' = Some (CivisJobFailure ''third'')"
    and "runs_started reqs' = replicate (nat 2) 7"
    by blast
  then show ?thesis
    by (simp add: numeral_2_eq_2)
qed

subsection \<open>Cancelling\<close>

lemma cancels_requested_append [simp]:
  "cancels_requested (xs @ ys) = cancels_requested xs @ cancels_requested ys"
  by (simp add: cancels_requested_def)

lemma cancels_requested_simps [simp]:
  "cancels_requested [] = []"
  "cancels_requested (PostCancel job # reqs) = job # cancels_requested reqs"
  "cancels_requested (PostRuns job # reqs) = cancels_requested reqs"
  "cancels_requested (ChannelsList # reqs) = cancels_requested reqs"
  by (simp_all add: cancels_requested_def)

lemma cancelled_imp_done: "cancelled t \<Longrightarrow> future_done t"
  by (simp add: cancelled_def future_done_def)

lemma cancel_done:
  assumes "future_done t"
  shows "cancel remote (reqs, t) = (Inr (cancelled t), reqs, t)"
  using assms by (auto simp: cancel_def dest: cancelled_imp_done)

lemma cancel_pending_answered:
  assumes "\<not> future_done t" and "post_cancel remote reqs (job_id t) = Inr r"
  shows "\<exists>t'. cancel remote (reqs, t) =
        (Inr (rstate r = Cancelled), reqs @ [PostCancel (job_id t)], t')
    \<and> stored_result t' = Some r \<and> cancelled t' = (rstate r = Cancelled)
    \<and> \<not> polling t' \<and> (has_pubnub t \<longrightarrow> \<not> subscribed t')
    \<and> cancel_notified t' = cancel_notified t @ waiters t
    \<and> wakeups t' = Suc (wakeups t) \<and> callbacks_run t' = Suc (callbacks_run t)
    \<and> job_id t' = job_id t \<and> run_id t' = run_id t
    \<and> stored_exception t' = stored_exception t"
proof -
  from assms(1) have "\<not> cancelled t"
    by (auto dest: cancelled_imp_done)
  with assms show ?thesis
    by (simp add: cancel_def cleanup_def Let_def cancelled_def status_def)
qed

lemma cancel_pending_raises:
  assumes "\<not> future_done t" and "post_cancel remote reqs (job_id t) = Inl e"
  shows "cancel remote (reqs, t) = (Inl e, reqs @ [PostCancel (job_id t)], t)"
proof -
  from assms(1) have "\<not> cancelled t"
    by (auto dest: cancelled_imp_done)
  with assms show ?thesis
    by (simp add: cancel_def)
qed

lemma cancel_all_frame:
  assumes "cancel_all remote (reqs, fs) = (raised, reqs', fs')"
  shows "length fs' = length fs \<and> (\<forall>i<length fs. future_done (fs ! i) \<longrightarrow> fs' ! i = fs ! i)"
  using assms
proof (induction fs arbitrary: reqs raised reqs' fs')
  case Nil
  then show ?case by simp
next
  case (Cons f fs)
  obtain res reqs1 f1 where c: "cancel remote (reqs, f) = (res, reqs1, f1)"
    by (cases "cancel remote (reqs, f)") auto
  have keep: "f1 = f" if "future_done f"
    using c cancel_done [OF that, of remote reqs] by simp
  show ?case
  proof (cases res)
    case (Inl e)
    with c Cons.prems have "fs' = f1 # fs" by simp
    with keep show ?thesis by (auto simp: nth_Cons split: nat.splits)
  next
    case (Inr b)
    obtain raised2 reqs2 fs2 where r: "cancel_all remote (reqs1, fs) = (raised2, reqs2, fs2)"
      by (cases "cancel_all remote (reqs1, fs)") auto
    from Cons.IH [OF r]
    have ih: "length fs2 = length fs" "\<forall>i<length fs. future_done (fs ! i) \<longrightarrow> fs2 ! i = fs ! i"
      by simp_all
    from c Inr r Cons.prems have "fs' = f1 # fs2" by simp
    with keep ih show ?thesis by (auto simp: nth_Cons split: nat.splits)
  qed
qed

lemma cancel_all_requests:
  assumes "answers_cancel remote"
  shows "\<exists>fs'. cancel_all remote (reqs, fs) =
    (None, reqs @ map (\<lambda>f. PostCancel (job_id f)) (filter (\<lambda>f. \<not> future_done f) fs), fs')"
proof (induction fs arbitrary: reqs)
  case Nil
  then show ?case by simp
next
  case (Cons f fs)
  show ?case
  proof (cases "future_done f")
    case True
    from Cons.IH [of reqs] obtain fs' where "cancel_all remote (reqs, fs) =
        (None, reqs @ map (\<lambda>f. PostCancel (job_id f)) (filter (\<lambda>f. \<not> future_done f) fs), fs')"
      by blast
    with True show ?thesis
      by (simp add: cancel_done)
  next
    case False
    from assms obtain r where r: "post_cancel remote reqs (job_id f) = Inr r"
      unfolding answers_cancel_def by blast
    from cancel_pending_answered [OF False r] obtain f' where
      c: "cancel remote (reqs, f) = (Inr (rstate r = Cancelled), reqs @ [PostCancel (job_id f)], f')"
      by blast
    from Cons.IH [of "reqs @ [PostCancel (job_id f)]"] obtain fs' where
      "cancel_all remote (reqs @ [PostCancel (job_id f)], fs) =
        (None, (reqs @ [PostCancel (job_id f)]) @
           map (\<lambda>f. PostCancel (job_id f)) (filter (\<lambda>f. \<not> future_done f) fs), fs')"
      by blast
    with False c show ?thesis
      by simp
  qed
qed



text \<open>
  C4. For every tracker that is already in a terminal state, \<open>cancel()\<close> leaves the tracker
  as it is, its stored result and exception included, issues no request, and returns
  \<open>True\<close> exactly when the terminal state is CANCELLED.  Hence \<open>cancel_all()\<close> leaves every
  tracker of the registry that is already terminal as it is, and, the remote service
  answering, the requests it issues are the cancel requests for the trackers that are
  not terminal, one each, in the order of the registry.
\<close>

theorem cancel_terminal_spec:
  "(future_done t \<longrightarrow> cancel remote (reqs, t) = (Inr (cancelled t), reqs, t))
   \<and> (\<forall>raised reqs' fs'. cancel_all remote (reqs, fs) = (raised, reqs', fs') \<longrightarrow>
        length fs' = length fs \<and>
        (\<forall>i<length fs. future_done (fs ! i) \<longrightarrow> fs' ! i = fs ! i))
   \<and> (answers_cancel remote \<longrightarrow>
        (\<exists>fs'. cancel_all remote (reqs, fs) =
           (None,
            reqs @ map (\<lambda>f. PostCancel (job_id f)) (filter (\<lambda>f. \<not> future_done f) fs),
            fs')))"
  using cancel_done [of t remote reqs] cancel_all_frame [of remote reqs fs]
    cancel_all_requests [of remote reqs fs]
  by blast

theorem cancel_terminal_spec_witness:
  "cancels_requested (fst (snd (cancel_all
      \<lparr>post_runs = (\<lambda>reqs job. Inr \<lparr>rid = 100, rstate = Queued\<rparr>),
       post_cancel = (\<lambda>reqs job. Inr \<lparr>rid = 1, rstate = Cancelled\<rparr>),
       channels_list = (\<lambda>reqs. None)\<rparr>
      ([], map (\<lambda>i. ContainerFuture i 1 0 False) [1, 2, 3, 4, 5] @
           map (\<lambda>i. (ContainerFuture i 1 0 False)
                  \<lparr>stored_result := Some \<lparr>rid = 1, rstate = Succeeded\<rparr>\<rparr>) [6, 7])))) =
     [1, 2, 3, 4, 5]
   \<and> snd (snd (cancel_all
      \<lparr>post_runs = (\<lambda>reqs job. Inr \<lparr>rid = 100, rstate = Queued\<rparr>),
       post_cancel = (\<lambda>reqs job. Inr \<lparr>rid = 1, rstate = Cancelled\<rparr>),
       channels_list = (\<lambda>reqs. None)\<rparr>
      ([], map (\<lambda>i. ContainerFuture i 1 0 False) [1, 2, 3, 4, 5] @
           map (\<lambda>i. (ContainerFuture i 1 0 False)
                  \<lparr>stored_result := Some \<lparr>rid = 1, rstate = Succeeded\<rparr>\<rparr>) [6, 7]))) ! 6 =
     (ContainerFuture 7 1 0 False)\<lparr>stored_result := Some \<lparr>rid = 1, rstate = Succeeded\<rparr>\<rparr>"
proof -
  let ?remote = "\<lparr>post_runs = (\<lambda>reqs job. Inr \<lparr>rid = 100, rstate = Queued\<rparr>),
       post_cancel = (\<lambda>reqs job. Inr \<lparr>rid = 1, rstate = Cancelled\<rparr>),
       channels_list = (\<lambda>reqs. None)\<rparr>"
  let ?fs = "map (\<lambda>i. ContainerFuture i 1 0 False) [1, 2, 3, 4, 5] @
           map (\<lambda>i. (ContainerFuture i 1 0 False)
                  \<lparr>stored_result := Some \<lparr>rid = 1, rstate = Succeeded\<rparr>\<rparr>) [6, 7]"
  have a: "answers_cancel ?remote"
    by (simp add: answers_cancel_def)
  note spec = cancel_terminal_spec [of _ ?remote "[]" ?fs]
  from spec a obtain fs' where c: "cancel_all ?remote ([], ?fs) =
      (None, [] @ map (\<lambda>f. PostCancel (job_id f)) (filter (\<lambda>f. \<not> future_done f) ?fs), fs')"
    by blast
  have d: "(6::nat) < length ?fs \<and> future_done (?fs ! 6)"
    by (simp add: future_done_def status_def ContainerFuture_def nth_append)
  with spec c have "fs' ! 6 = ?fs ! 6"
    by blast
  moreover have "?fs ! 6 =
      (ContainerFuture 7 1 0 False)\<lparr>stored_result := Some \<lparr>rid = 1, rstate = Succeeded\<rparr>\<rparr>"
    by (simp add: nth_append)
  moreover have "cancels_requested
      (map (\<lambda>f. PostCancel (job_id f)) (filter (\<lambda>f. \<not> future_done f) ?fs)) = [1, 2, 3, 4, 5]"
    by (simp add: future_done_def status_def ContainerFuture_def)
  ultimately show ?thesis
    using c by simp
qed

subsection \<open>Downloading the output of a run\<close>

declare robust_result_download_loop.simps [simp del]

lemma download_loop_stops:
  assumes "n \<le> j" and "int j \<le> n_retries"
    and "\<forall>i. n \<le> i \<and> i < j \<longrightarrow> transport_failure civis_to_file i"
    and "\<not> transport_failure civis_to_file j"
  shows "robust_result_download_loop civis_to_file load n_retries delay n sl =
     \<lparr>outcome = download_result civis_to_file load j, attempts = Suc j,
      slept = sl @ replicate (j - n) delay\<rparr>"
  using assms
proof (induction "j - n" arbitrary: n sl)
  case 0
  then have "n = j" by simp
  with 0 show ?case
    by (subst robust_result_download_loop.simps)
      (simp add: transport_failure_def download_result_def split: sum.splits)
next
  case (Suc d)
  then have lt: "n < j" and tf: "transport_failure civis_to_file n" by auto
  from tf obtain e where e: "civis_to_file n = Inl e" "is_retry_exc e"
    by (auto simp: transport_failure_def split: sum.splits)
  from lt Suc.prems have left: "int n < n_retries" by auto
  have "robust_result_download_loop civis_to_file load n_retries delay n sl =
      robust_result_download_loop civis_to_file load n_retries delay (Suc n) (sl @ [delay])"
    using e left by (subst robust_result_download_loop.simps) simp
  also have "\<dots> = \<lparr>outcome = download_result civis_to_file load j, attempts = Suc j,
      slept = (sl @ [delay]) @ replicate (j - Suc n) delay\<rparr>"
  proof (rule Suc.hyps(1))
    show "d = j - Suc n" using Suc.hyps(2) by simp
    show "Suc n \<le> j" using lt by simp
    show "int j \<le> n_retries" by (rule Suc.prems(2))
    show "\<forall>i. Suc n \<le> i \<and> i < j \<longrightarrow> transport_failure civis_to_file i"
      using Suc.prems(3) by simp
    show "\<not> transport_failure civis_to_file j" by (rule Suc.prems(4))
  qed
  also have "(sl @ [delay]) @ replicate (j - Suc n) delay = sl @ replicate (j - n) delay"
  proof -
    have "j - n = Suc (j - Suc n)" using lt by simp
    then show ?thesis by simp
  qed
  finally show ?case .
qed

lemma download_loop_exhausted:
  assumes "0 \<le> n_retries" and "int n \<le> n_retries"
    and "\<forall>i. n \<le> i \<and> int i \<le> n_retries \<longrightarrow> transport_failure civis_to_file i"
  shows "robust_result_download_loop civis_to_file load n_retries delay n sl =
     \<lparr>outcome = download_result civis_to_file load (nat n_retries),
      attempts = Suc (nat n_retries),
      slept = sl @ replicate (nat n_retries - n) delay\<rparr>"
  using assms(2,3)
proof (induction "nat n_retries - n" arbitrary: n sl)
  case 0
  then have n: "n = nat n_retries" by auto
  from 0 have "transport_failure civis_to_file n" by auto
  then obtain e where e: "civis_to_file n = Inl e" "is_retry_exc e"
    by (auto simp: transport_failure_def split: sum.splits)
  from n assms(1) have "\<not> int n < n_retries" by auto
  with e n show ?case
    by (subst robust_result_download_loop.simps) (simp add: download_result_def)
next
  case (Suc d)
  then have lt: "int n < n_retries" by auto
  from Suc.prems have "transport_failure civis_to_file n" by auto
  then obtain e where e: "civis_to_file n = Inl e" "is_retry_exc e"
    by (auto simp: transport_failure_def split: sum.splits)
  have "robust_result_download_loop civis_to_file load n_retries delay n sl =
      robust_result_download_loop civis_to_file load n_retries delay (Suc n) (sl @ [delay])"
    using e lt by (subst robust_result_download_loop.simps) simp
  also have "\<dots> = \<lparr>outcome = download_result civis_to_file load (nat n_retries),
      attempts = Suc (nat n_retries),
      slept = (sl @ [delay]) @ replicate (nat n_retries - Suc n) delay\<rparr>"
  proof (rule Suc.hyps(1))
    show "d = nat n_retries - Suc n" using Suc.hyps(2) by simp
    show "int (Suc n) \<le> n_retries" using lt by simp
    show "\<forall>i. Suc n \<le> i \<and> int i \<le> n_retries \<longrightarrow> transport_failure civis_to_file i"
      using Suc.prems(2) by simp
  qed
  also have "(sl @ [delay]) @ replicate (nat n_retries - Suc n) delay =
      sl @ replicate (nat n_retries - n) delay"
  proof -
    have "nat n_retries - n = Suc (nat n_retries - Suc n)" using lt by simp
    then show ?thesis by simp
  qed
  finally show ?case .
qed

lemma robust_result_download_stops:
  assumes "int j \<le> n_retries"
    and "\<forall>i<j. transport_failure civis_to_file i"
    and "\<not> transport_failure civis_to_file j"
  shows "robust_result_download civis_to_file load n_retries delay =
     \<lparr>outcome = download_result civis_to_file load j, attempts = Suc j,
      slept = replicate j delay\<rparr>"
  using download_loop_stops [of 0 j n_retries civis_to_file load delay "[]"] assms
  by (simp add: robust_result_download_def)

lemma robust_result_download_exhausted:
  assumes "0 \<le> n_retries"
    and "\<forall>i. int i \<le> n_retries \<longrightarrow> transport_failure civis_to_file i"
  shows "robust_result_download civis_to_file load n_retries delay =
     \<lparr>outcome = download_result civis_to_file load (nat n_retries),
      attempts = Suc (nat n_retries), slept = replicate (nat n_retries) delay\<rparr>"
  using download_loop_exhausted [of n_retries 0 civis_to_file load delay "[]"] assms
  by (simp add: robust_result_download_def)

lemma transport_failure_result:
  assumes "transport_failure civis_to_file j"
  shows "\<exists>e. civis_to_file j = Inl e \<and> is_retry_exc e \<and>
    download_result civis_to_file load j = Inl e"
  using assms by (auto simp: transport_failure_def download_result_def split: sum.splits)

lemma robust_result_download_cases:
  assumes "0 \<le> n_retries"
  obtains (stops) j where "int j \<le> n_retries" and "\<forall>i<j. transport_failure civis_to_file i"
      and "\<not> transport_failure civis_to_file j"
      and "robust_result_download civis_to_file load n_retries delay =
        \<lparr>outcome = download_result civis_to_file load j, attempts = Suc j,
         slept = replicate j delay\<rparr>"
  | (exhausted) "\<forall>i. int i \<le> n_retries \<longrightarrow> transport_failure civis_to_file i"
      and "robust_result_download civis_to_file load n_retries delay =
        \<lparr>outcome = download_result civis_to_file load (nat n_retries),
         attempts = Suc (nat n_retries), slept = replicate (nat n_retries) delay\<rparr>"
proof (cases "\<exists>j. int j \<le> n_retries \<and> \<not> transport_failure civis_to_file j")
  case True
  then obtain j where j: "int j \<le> n_retries" "\<not> transport_failure civis_to_file j"
    and least: "\<forall>i<j. \<not> (int i \<le> n_retries \<and> \<not> transport_failure civis_to_file i)"
    using exists_least_iff
      [of "\<lambda>j. int j \<le> n_retries \<and> \<not> transport_failure civis_to_file j"]
    by blast
  from j(1) least have before: "\<forall>i<j. transport_failure civis_to_file i"
    by auto
  from j(1) before j(2) have "robust_result_download civis_to_file load n_retries delay =
        \<lparr>outcome = download_result civis_to_file load j, attempts = Suc j,
         slept = replicate j delay\<rparr>"
    by (rule robust_result_download_stops)
  with j(1) before j(2) show ?thesis
    by (rule stops)
next
  case False
  then have all: "\<forall>i. int i \<le> n_retries \<longrightarrow> transport_failure civis_to_file i"
    by blast
  with assms have "robust_result_download civis_to_file load n_retries delay =
        \<lparr>outcome = download_result civis_to_file load (nat n_retries),
         attempts = Suc (nat n_retries), slept = replicate (nat n_retries) delay\<rparr>"
    by (rule robust_result_download_exhausted)
  with all show ?thesis
    by (rule exhausted)
qed

lemma fetch_result_download_fails:
  assumes "list_outputs (job_id fut) (run_id fut) = Inr (file # others)"
    and "download_fails civis_to_file file"
  shows "\<exists>e. civis_to_file file 5 = Inl e \<and> is_retry_exc e \<and>
    fetch_result list_outputs civis_to_file load joblib_callback fut =
      \<lparr>hook_raised = None, fetched_future = fut\<lparr>remote_func_output := PyException e\<rparr>,
       continuation_calls = [],
       download = Some \<lparr>outcome = Inl e, attempts = 6, slept = replicate 5 1\<rparr>\<rparr>"
proof -
  from assms(2) have all: "\<forall>i. int i \<le> 5 \<longrightarrow> transport_failure (civis_to_file file) i"
    by (auto simp: download_fails_def)
  then have "transport_failure (civis_to_file file) 5" by simp
  from transport_failure_result [OF this, of load] obtain e
    where e: "civis_to_file file 5 = Inl e" "is_retry_exc e"
      "download_result (civis_to_file file) load 5 = Inl e"
    by blast
  have "robust_result_download (civis_to_file file) load 5 (1::nat) =
      \<lparr>outcome = download_result (civis_to_file file) load (nat 5),
       attempts = Suc (nat 5), slept = replicate (nat 5) 1\<rparr>"
    using all by (intro robust_result_download_exhausted) simp_all
  with e(3) have "robust_result_download (civis_to_file file) load 5 (1::nat) =
      \<lparr>outcome = Inl e, attempts = 6, slept = replicate 5 1\<rparr>"
    by simp
  with assms(1) e(1,2) show ?thesis
    by (simp add: fetch_result_def fetch_result_except_def)
qed

lemma get_after_failed_fetch:
  assumes "future_done fut" and "\<not> result_fetched fut" and "\<not> cancelled fut"
  shows "fst (get settle \<lparr>future = fut\<lparr>remote_func_output := PyException e\<rparr>,
      result = PyNone\<rparr>) = Inl e"
  using assms
  by (auto simp: get_def wait_for_def future_done_def cancelled_def status_def
      future_exception_def Let_def)

lemma get_cancelled:
  assumes "cancelled (future r)"
  shows "fst (get settle r) = Inl CancelledError"
proof -
  from assms have "future_done (future r)"
    by (rule cancelled_imp_done)
  with assms show ?thesis
    by (simp add: get_def wait_for_def future_exception_def Let_def)
qed

text \<open>
  C7. For every download of an output artifact, the transport errors (HTTP error,
  connection error, connect timeout) are retried with the fixed delay up to \<open>n_retries\<close>
  times, so the download is attempted at least once and at most \<open>n_retries + 1\<close> times;
  the first attempt that does not end in a transport error ends the download, and when
  every attempt ends in one, the exception of the last attempt is raised.  In the
  completion hook (\<open>n_retries = 5\<close>) that exception does not leave the hook: it is stored
  in \<open>remote_func_output\<close>, the result is not marked fetched, the continuation is not
  called, and a later \<open>get\<close> raises: the stored exception, or \<open>CancelledError\<close> for a
  cancelled run.
\<close>

theorem robust_result_download_spec:
  assumes "0 \<le> n_retries"
  shows "1 \<le> attempts (robust_result_download attempt ld n_retries delay)
    \<and> int (attempts (robust_result_download attempt ld n_retries delay)) \<le> n_retries + 1
    \<and> slept (robust_result_download attempt ld n_retries delay) =
        replicate (attempts (robust_result_download attempt ld n_retries delay) - 1) delay
    \<and> (\<forall>j. int j \<le> n_retries \<and> (\<forall>i<j. transport_failure attempt i) \<and>
            \<not> transport_failure attempt j \<longrightarrow>
          outcome (robust_result_download attempt ld n_retries delay) =
            download_result attempt ld j \<and>
          attempts (robust_result_download attempt ld n_retries delay) = Suc j)
    \<and> ((\<forall>i. int i \<le> n_retries \<longrightarrow> transport_failure attempt i) \<longrightarrow>
          attempts (robust_result_download attempt ld n_retries delay) = nat n_retries + 1 \<and>
          (\<exists>e. attempt (nat n_retries) = Inl e \<and> is_retry_exc e \<and>
             outcome (robust_result_download attempt ld n_retries delay) = Inl e))
    \<and> (list_outputs (job_id fut) (run_id fut) = Inr (output_file_id # others) \<and>
        download_fails civis_to_file output_file_id \<longrightarrow>
          (\<exists>e. civis_to_file output_file_id 5 = Inl e \<and> is_retry_exc e \<and>
             hook_raised (fetch_result list_outputs civis_to_file load joblib_callback fut)
               = None \<and>
             fetched_future (fetch_result list_outputs civis_to_file load joblib_callback fut)
               = fut\<lparr>remote_func_output := PyException e\<rparr> \<and>
             continuation_calls
               (fetch_result list_outputs civis_to_file load joblib_callback fut) = [] \<and>
             download (fetch_result list_outputs civis_to_file load joblib_callback fut) =
               Some \<lparr>outcome = Inl e, attempts = 6, slept = replicate 5 1\<rparr> \<and>
             (future_done fut \<and> \<not> result_fetched fut \<longrightarrow>
                fst (get settle
                  \<lparr>future = fetched_future
                     (fetch_result list_outputs civis_to_file load joblib_callback fut),
                   result = PyNone\<rparr>) =
                  Inl (if cancelled fut then CancelledError else e))))"
proof -
  let ?D = "robust_result_download attempt ld n_retries delay"
  have bounds: "1 \<le> attempts ?D \<and> int (attempts ?D) \<le> n_retries + 1
      \<and> slept ?D = replicate (attempts ?D - 1) delay"
    using assms
  proof (cases rule: robust_result_download_cases
      [where civis_to_file = attempt and load = ld and delay = delay])
    case (stops j)
    then show ?thesis by simp
  next
    case exhausted
    with assms show ?thesis by simp
  qed
  have stop: "outcome ?D = download_result attempt ld j \<and> attempts ?D = Suc j"
    if "int j \<le> n_retries" and "\<forall>i<j. transport_failure attempt i"
      and "\<not> transport_failure attempt j" for j
    using robust_result_download_stops [OF that, of ld delay] by simp
  have exhaust: "attempts ?D = nat n_retries + 1 \<and>
      (\<exists>e. attempt (nat n_retries) = Inl e \<and> is_retry_exc e \<and> outcome ?D = Inl e)"
    if all: "\<forall>i. int i \<le> n_retries \<longrightarrow> transport_failure attempt i"
  proof -
    from all assms have "transport_failure attempt (nat n_retries)" by simp
    from transport_failure_result [OF this, of ld]
      robust_result_download_exhausted [OF assms all, of ld delay]
    show ?thesis by auto
  qed
  let ?H = "fetch_result list_outputs civis_to_file load joblib_callback fut"
  have hook: "\<exists>e. civis_to_file output_file_id 5 = Inl e \<and> is_retry_exc e \<and>
      hook_raised ?H = None \<and>
      fetched_future ?H = fut\<lparr>remote_func_output := PyException e\<rparr> \<and>
      continuation_calls ?H = [] \<and>
      download ?H = Some \<lparr>outcome = Inl e, attempts = 6, slept = replicate 5 1\<rparr> \<and>
      (future_done fut \<and> \<not> result_fetched fut \<longrightarrow>
         fst (get settle \<lparr>future = fetched_future ?H, result = PyNone\<rparr>) =
           Inl (if cancelled fut then CancelledError else e))"
    if out: "list_outputs (job_id fut) (run_id fut) = Inr (output_file_id # others)"
      and fails: "download_fails civis_to_file output_file_id"
  proof -
    from fetch_result_download_fails [where list_outputs = list_outputs and fut = fut
        and load = load and joblib_callback = joblib_callback, OF out fails]
    obtain e where e: "civis_to_file output_file_id 5 = Inl e" "is_retry_exc e"
      and H: "?H = \<lparr>hook_raised = None,
          fetched_future = fut\<lparr>remote_func_output := PyException e\<rparr>,
          continuation_calls = [],
          download = Some \<lparr>outcome = Inl e, attempts = 6, slept = replicate 5 1\<rparr>\<rparr>"
      by blast
    have "fst (get settle \<lparr>future = fut\<lparr>remote_func_output := PyException e\<rparr>,
          result = PyNone\<rparr>) = Inl (if cancelled fut then CancelledError else e)"
      if "future_done fut" and "\<not> result_fetched fut"
    proof (cases "cancelled fut")
      case True
      then have "cancelled (future \<lparr>future = fut\<lparr>remote_func_output := PyException e\<rparr>,
          result = PyNone\<rparr>)"
        by (simp add: cancelled_def status_def)
      from get_cancelled [OF this] True show ?thesis by simp
    next
      case False
      with get_after_failed_fetch [OF that False] show ?thesis by simp
    qed
    with e H show ?thesis by simp
  qed
  show ?thesis
    using bounds stop exhaust hook by blast
qed

theorem robust_result_download_spec_witness:
  "outcome (robust_result_download
      (\<lambda>i. if i < 3 then Inl ConnectionError else Inr (10 :: int))
      (\<lambda>buffer. Inr (buffer + 1) :: py_error + int) 5 (1 :: nat)) = Inr 11
   \<and> attempts (robust_result_download
      (\<lambda>i. if i < 3 then Inl ConnectionError else Inr (10 :: int))
      (\<lambda>buffer. Inr (buffer + 1) :: py_error + int) 5 (1 :: nat)) = 4
   \<and> slept (robust_result_download
      (\<lambda>i. if i < 3 then Inl ConnectionError else Inr (10 :: int))
      (\<lambda>buffer. Inr (buffer + 1) :: py_error + int) 5 (1 :: nat)) = [1, 1, 1]"
proof -
  let ?attempt = "\<lambda>i::nat. if i < 3 then Inl ConnectionError else Inr (10 :: int)"
  let ?ld = "\<lambda>buffer::int. Inr (buffer + 1) :: py_error + int"
  have n: "(0::int) \<le> 5" by simp
  have pre: "int 3 \<le> 5 \<and> (\<forall>i<3. transport_failure ?attempt i) \<and>
      \<not> transport_failure ?attempt 3"
    by (simp add: transport_failure_def)
  note spec = robust_result_download_spec [OF n, where attempt = ?attempt and ld = ?ld
      and delay = "1::nat" and list_outputs = "\<lambda>job run. Inr []"
      and fut = "future (CivisBackendResult (ContainerFuture 7 1 0 False))"
      and output_file_id = 0 and others = "[]"
      and civis_to_file = "\<lambda>output_file_id. ?attempt" and load = "\<lambda>buffer. Inr (PyValue buffer)"
      and joblib_callback = "\<lambda>v. None" and settle = "\<lambda>fut. fut"]
  have "outcome (robust_result_download ?attempt ?ld 5 (1::nat)) =
      download_result ?attempt ?ld 3 \<and>
      attempts (robust_result_download ?attempt ?ld 5 (1::nat)) = Suc 3"
    by (rule spec [THEN conjunct2, THEN conjunct2, THEN conjunct2, THEN conjunct1,
          rule_format, OF pre])
  moreover have "slept (robust_result_download ?attempt ?ld 5 (1::nat)) =
      replicate (attempts (robust_result_download ?attempt ?ld 5 (1::nat)) - 1) 1"
    by (rule spec [THEN conjunct2, THEN conjunct2, THEN conjunct1])
  ultimately show ?thesis
    by (simp add: download_result_def numeral_3_eq_3)
qed

subsection \<open>The completion hook\<close>

lemma status_result_fetched [simp]:
  "cancelled (fut\<lparr>result_fetched := b\<rparr>) = cancelled fut"
  "cancelled (fut\<lparr>remote_func_output := x\<rparr>) = cancelled fut"
  "future_exception (fut\<lparr>result_fetched := b\<rparr>) = future_exception fut"
  by (simp_all add: cancelled_def status_def future_exception_def)










subsection \<open>Retrieving the result\<close>

lemma wait_for_done: "future_done fut \<Longrightarrow> wait_for settle fut = fut"
  by (simp add: wait_for_def)

lemma get_done_state:
  assumes "future_done (future r)"
  shows "snd (get settle r) =
     (if result r = PyNone then r\<lparr>result := remote_func_output (future r)\<rparr> else r)"
  using assms
  by (auto simp: get_def wait_for_done Let_def split: sum.splits pyobj.splits)

lemma get_done_value:
  assumes "future_done (future r)" and "get settle r = (Inr v, r')"
  shows "result r' = v \<and> future r' = future r
    \<and> future_exception (future r) = Inr None \<and> result_fetched (future r)
    \<and> (result r = PyNone \<longrightarrow> v = remote_func_output (future r))
    \<and> (result r \<noteq> PyNone \<longrightarrow> v = result r)"
  using assms
  by (auto simp: get_def wait_for_done Let_def split: sum.splits pyobj.splits if_splits)

lemma get_cached_value:
  assumes "future_done (future r)" and "get settle r = (Inr v, r')"
  shows "get settle' r' = (Inr v, r')"
proof -
  from get_done_value [OF assms] have v: "result r' = v" and f: "future r' = future r"
    and e: "future_exception (future r) = Inr None" and fetched: "result_fetched (future r)"
    and none: "result r = PyNone \<longrightarrow> v = remote_func_output (future r)"
    by simp_all
  from assms(1) f have d: "future_done (future r')" by simp
  show ?thesis
  proof (cases "v = PyNone")
    case True
    with v f none get_done_state [OF assms(1), of settle] assms(2)
    have "remote_func_output (future r') = PyNone"
      by (auto split: if_splits)
    with True v have "r'\<lparr>future := future r', result := remote_func_output (future r')\<rparr> = r'"
      by simp
    with True v d e f fetched show ?thesis
      by (simp add: get_def wait_for_done Let_def)
  next
    case False
    with v d e f fetched show ?thesis
      by (simp add: get_def Let_def)
  qed
qed

text \<open>
  C5. For every \<open>_CivisBackendResult\<close> whose future has reached a terminal state and whose
  first \<open>get()\<close> returned a value, every later \<open>get()\<close> returns that value, which is the one
  held in the slot \<open>result\<close>, and leaves the result object and the future as they are,
  whatever a wait would do.  \<open>get\<close> has no access to the artifact store: the download and
  the deserialization happen in the completion hook only.
\<close>

theorem get_cached:
  "future_done (future r) \<and> get settle r = (Inr v, r') \<longrightarrow>
     get settle' r' = (Inr v, r') \<and> result r' = v \<and> future r' = future r \<and>
     fst (get settle' (snd (get settle' r'))) = Inr v"
proof
  assume a: "future_done (future r) \<and> get settle r = (Inr v, r')"
  then have d: "future_done (future r)" and g: "get settle r = (Inr v, r')"
    by simp_all
  from get_cached_value [OF d g] have again: "get settle' r' = (Inr v, r')" .
  from get_done_value [OF d g] have "result r' = v" and "future r' = future r"
    by simp_all
  with again show "get settle' r' = (Inr v, r') \<and> result r' = v \<and> future r' = future r \<and>
     fst (get settle' (snd (get settle' r'))) = Inr v"
    by simp
qed

theorem get_cached_witness:
  "get (\<lambda>fut. fut)
     \<lparr>future = (future (CivisBackendResult
          ((ContainerFuture 7 1 0 False)
             \<lparr>stored_result := Some \<lparr>rid = 1, rstate = Succeeded\<rparr>\<rparr>)))
          \<lparr>remote_func_output := PyValue (11 :: int), result_fetched := True\<rparr>,
      result = PyValue 11\<rparr> =
   (Inr (PyValue 11),
     \<lparr>future = (future (CivisBackendResult
          ((ContainerFuture 7 1 0 False)
             \<lparr>stored_result := Some \<lparr>rid = 1, rstate = Succeeded\<rparr>\<rparr>)))
          \<lparr>remote_func_output := PyValue (11 :: int), result_fetched := True\<rparr>,
      result = PyValue 11\<rparr>)"
proof -
  let ?fut = "(future (CivisBackendResult
          ((ContainerFuture 7 1 0 False)
             \<lparr>stored_result := Some \<lparr>rid = 1, rstate = Succeeded\<rparr>\<rparr>)))
          \<lparr>remote_func_output := PyValue (11 :: int), result_fetched := True\<rparr>"
  let ?r = "\<lparr>future = ?fut, result = PyNone\<rparr>"
  let ?r' = "\<lparr>future = ?fut, result = PyValue 11\<rparr>"
  have d: "future_done ?fut"
    by (simp add: future_done_def status_def CivisBackendResult_def ContainerFuture_def
        tracker.extend_def joblib_future.fields_def)
  have e: "future_exception ?fut = Inr None"
    by (simp add: future_exception_def cancelled_def status_def CivisBackendResult_def
        ContainerFuture_def tracker.extend_def joblib_future.fields_def)
  have first: "get (\<lambda>fut. fut) ?r = (Inr (PyValue 11), ?r')"
    using d e by (simp add: get_def wait_for_def Let_def)
  from get_cached [of ?r "\<lambda>fut. fut" "PyValue 11" ?r' "\<lambda>fut. fut"] d first
  show ?thesis
    by simp
qed

end
